theory Spec2Isabelle
  imports Complex_Main "HOL-Library.Finite_Map" "HOL-Library.Word" "HOL-Library.Sublist"
begin

section \<open>Shared data model\<close>

text \<open>
  A Go panic is a value of \<open>error\<close>; a function that can panic returns \<open>error + 'a\<close>
  with \<open>Inl\<close> for the panic.  Go's \<open>int\<close> is modelled by \<open>int\<close>, with the 64-bit
  wrap-around written out where a product is formed; \<open>uint64\<close> is \<open>64 word\<close>.
\<close>

datatype error = IndexOutOfRange | NilPointerDereference | DivideByZero | InterfaceConversion

text \<open>The values stored under \<open>Params\<close> (\<open>map[string]interface{}\<close>) of an event.\<close>

datatype param = PString string | PUint "64 word"

text \<open>
  \<open>Event\<close>: the fields the code writes (\<open>Name\<close>, \<open>Node\<close>, \<open>Params\<close>, \<open>Reset\<close>).
  \<open>&Event{Reset: true}\<close> leaves every other field at its zero value.
\<close>

record Event =
  Event_Name :: string
  Event_Node :: "64 word"
  Event_Params :: "(string \<times> param) list"
  Event_Reset :: bool

definition Reset_Event :: Event where
  "Reset_Event = \<lparr>Event_Name = [], Event_Node = 0, Event_Params = [], Event_Reset = True\<rparr>"

datatype ChoiceType = Node | RandomBoolean | RandomInteger | StartNode | StopNode | ClientRequest

record SchedulingChoice =
  Choice_Type :: ChoiceType
  Choice_From :: "64 word"
  Choice_To :: "64 word"
  Choice_MaxMessages :: int
  Choice_Node :: "64 word"
  Choice_Step :: int
  Choice_BooleanChoice :: bool
  Choice_IntegerChoice :: int
  Choice_Request :: int

type_synonym trace = "SchedulingChoice list"

text \<open>
  Modelled from the spec: the containers \<open>List\<close> and \<open>Queue\<close>, which are not among the
  sources.  The spec has "an ordered sequence supporting indexed access/append/iterate,
  and a FIFO queue": both are lists here.  \<open>Append\<close> and \<open>Push\<close> add at the back,
  \<open>Pop\<close> takes the front element and reports whether there was one, \<open>Reset\<close>
  empties the queue and \<open>Size\<close> is its length.
\<close>

definition List_Append :: "'a list \<Rightarrow> 'a \<Rightarrow> 'a list" where
  "List_Append xs x = xs @ [x]"

definition Queue_Push :: "'a list \<Rightarrow> 'a \<Rightarrow> 'a list" where
  "Queue_Push q x = q @ [x]"

definition Queue_Pop :: "'a list \<Rightarrow> ('a \<times> 'a list) option" where
  "Queue_Pop q = (case q of [] \<Rightarrow> None | x # rest \<Rightarrow> Some (x, rest))"

definition Queue_Reset :: "'a list" where
  "Queue_Reset = []"

definition Queue_Size :: "'a list \<Rightarrow> int" where
  "Queue_Size q = int (length q)"

declare List_Append_def [simp] Queue_Push_def [simp] Queue_Pop_def [simp]
  Queue_Reset_def [simp] Queue_Size_def [simp]

section \<open>TLC client (tlc\_client.go)\<close>

record State =
  Repr :: string
  Key :: string

record TLCResponse =
  States :: "string list"
  Keys :: "string list"

record TLCClient =
  ClientAddr :: string

text \<open>
  The world outside the process, as far as \<open>SendTrace\<close> touches it: the JSON encoder
  and decoder, the server answering a POST (it may depend on the requests it has seen),
  and the log of the requests posted so far.  \<open>json_Unmarshal\<close> gives what
  \<open>json.Unmarshal\<close> leaves in the fresh \<open>TLCResponse\<close>.  The sources do not show
  how \<open>resData\<close> is read from the response; \<open>server\<close> gives it for every request.
\<close>

record http_request =
  url :: string
  content_type :: string
  body :: string

record net =
  json_Marshal :: "Event list \<Rightarrow> string"
  server :: "http_request list \<Rightarrow> http_request \<Rightarrow> string"
  json_Unmarshal :: "string \<Rightarrow> TLCResponse"
  posted :: "http_request list"

definition zero_State :: State where
  "zero_State = \<lparr>Repr = [], Key = []\<rparr>"

text \<open>
  \<open>for i, s := range tlcResponse.States { result[i] = State{Repr: s, Key: tlcResponse.Keys[i]} }\<close>:
  \<open>Keys[i]\<close> panics when \<open>i\<close> is out of range.
\<close>

fun fill_states :: "nat \<Rightarrow> string list \<Rightarrow> string list \<Rightarrow> State list \<Rightarrow> error + State list" where
  "fill_states i [] keys result = Inr result"
| "fill_states i (s # ss) keys result =
     (if i < length keys
      then fill_states (Suc i) ss keys (result[i := \<lparr>Repr = s, Key = keys ! i\<rparr>])
      else Inl IndexOutOfRange)"

text \<open>
  \<open>SendTrace\<close> receives a pointer to the caller's list, so the appended event is the
  caller's: the model returns the list (and the world) next to the result, also when
  the conversion loop panics.
\<close>

definition SendTrace :: "TLCClient \<Rightarrow> net \<Rightarrow> Event list \<Rightarrow> (Event list \<times> net) \<times> (error + State list)" where
  "SendTrace c w trace =
     (let trace' = List_Append trace Reset_Event;
          data = json_Marshal w trace';
          req = \<lparr>url = ''http://'' @ ClientAddr c @ ''/execute'',
                 content_type = ''application/json'', body = data\<rparr>;
          resData = server w (posted w) req;
          w' = w\<lparr>posted := posted w @ [req]\<rparr>;
          tlcResponse = json_Unmarshal w resData;
          result = replicate (length (States tlcResponse)) zero_State
      in ((trace', w'), fill_states 0 (States tlcResponse) (Keys tlcResponse) result))"

text \<open>The response \<open>SendTrace\<close> parses for a given trace.\<close>

definition tlc_response :: "TLCClient \<Rightarrow> net \<Rightarrow> Event list \<Rightarrow> TLCResponse" where
  "tlc_response c w trace =
     json_Unmarshal w (server w (posted w)
       \<lparr>url = ''http://'' @ ClientAddr c @ ''/execute'',
        content_type = ''application/json'', body = json_Marshal w (trace @ [Reset_Event])\<rparr>)"

section \<open>Guiders (guider.go)\<close>

record TLCStateGuider =
  tlcClient :: TLCClient
  statesMap :: "(string, bool) fmap"

text \<open>The loop over \<open>tlcStates\<close> of \<open>TLCStateGuider.Check\<close>.\<close>

fun count_new :: "State list \<Rightarrow> int \<Rightarrow> (string, bool) fmap \<Rightarrow> int \<times> (string, bool) fmap" where
  "count_new [] numNewStates m = (numNewStates, m)"
| "count_new (s # ss) numNewStates m =
     (if fmlookup m (Key s) = None
      then count_new ss (numNewStates + 1) (fmupd (Key s) True m)
      else count_new ss numNewStates m)"

text \<open>
  \<open>float64(a) / float64(b)\<close> is modelled by the exact quotient in \<open>real\<close>; the
  conversions are exact below \<open>2^53\<close> and the machine quotient is that value rounded.
\<close>

definition ratio :: "int \<Rightarrow> int \<Rightarrow> real" where
  "ratio a b = real_of_int a / real_of_int b"

definition TLCStateGuider_Check ::
  "TLCStateGuider \<Rightarrow> net \<Rightarrow> trace \<Rightarrow> Event list
     \<Rightarrow> (TLCStateGuider \<times> net \<times> Event list) \<times> (error + int \<times> real)" where
  "TLCStateGuider_Check t w trace eventTrace =
     (case SendTrace (tlcClient t) w eventTrace of
        ((eventTrace', w'), Inl e) \<Rightarrow> ((t, w', eventTrace'), Inl e)
      | ((eventTrace', w'), Inr tlcStates) \<Rightarrow>
          (let (numNewStates, m') = count_new tlcStates 0 (statesMap t);
               curStates = int (fcard (fmdom m'))
           in ((t\<lparr>statesMap := m'\<rparr>, w', eventTrace'),
               Inr (numNewStates, ratio numNewStates (max curStates 1)))))"

text \<open>
  \<open>TraceCoverageGuider\<close> embeds a \<open>TLCStateGuider\<close> and keeps the set of trace hashes.
  \<open>newEventTrace(events).Hash()\<close> is not among the sources: it is the parameter
  \<open>hash\<close>, applied to the list as \<open>TLCStateGuider.Check\<close> left it.
\<close>

record TraceCoverageGuider =
  embedded :: TLCStateGuider
  traces :: "(string, bool) fmap"

definition TraceCoverageGuider_Check ::
  "(Event list \<Rightarrow> string) \<Rightarrow> TraceCoverageGuider \<Rightarrow> net \<Rightarrow> trace \<Rightarrow> Event list
     \<Rightarrow> (TraceCoverageGuider \<times> net \<times> Event list) \<times> (error + int \<times> real)" where
  "TraceCoverageGuider_Check hash t w trace events =
     (case TLCStateGuider_Check (embedded t) w trace events of
        ((g', w', events'), Inl e) \<Rightarrow> ((t\<lparr>embedded := g'\<rparr>, w', events'), Inl e)
      | ((g', w', events'), Inr _) \<Rightarrow>
          (let key = hash events';
               (new, traces') =
                  (if fmlookup (traces t) key = None
                   then (1, fmupd key True (traces t))
                   else (0, traces t))
           in ((t\<lparr>embedded := g', traces := traces'\<rparr>, w', events'),
               Inr (new, ratio new (int (fcard (fmdom traces')))))))"

section \<open>Command line (main.go)\<close>

record RaftEnvironmentConfig =
  Replicas :: int
  ElectionTick :: int
  HeartbeatTick :: int
  TicksPerStep :: int

text \<open>
  The numeric fields of \<open>FuzzerConfig\<close>.  Its \<open>Strategy\<close>, \<open>Guider\<close>, \<open>Mutator\<close> and
  \<open>Checker\<close> fields hold objects; the model passes their methods as functions (see
  \<open>parts\<close> below).
\<close>

record FuzzerConfig =
  Iterations :: int
  Steps :: int
  RaftConfig :: RaftEnvironmentConfig
  MutPerTrace :: int
  NumberRequests :: int
  CrashQuota :: int
  MaxMessages :: int
  SeedPopulationSize :: int
  ReseedFrequency :: int

text \<open>The package-level flag variables, with the defaults \<open>main\<close> registers.\<close>

record flags =
  episodes :: int
  horizon :: int
  savePath :: string
  replicas :: int
  requests :: int
  numRuns :: int
  recordTraces :: bool
  host :: string
  port :: int

definition default_flags :: flags where
  "default_flags =
     \<lparr>episodes = 10000, horizon = 50, savePath = ''results'', replicas = 3, requests = 1,
      numRuns = 5, recordTraces = False, host = ''127.0.0.1'', port = 2023\<rparr>"

definition FuzzCommand_config :: "flags \<Rightarrow> FuzzerConfig" where
  "FuzzCommand_config fl =
     \<lparr>Iterations = episodes fl, Steps = horizon fl,
      RaftConfig = \<lparr>Replicas = replicas fl, ElectionTick = 20, HeartbeatTick = 2, TicksPerStep = 2\<rparr>,
      MutPerTrace = 5, NumberRequests = requests fl, CrashQuota = 2, MaxMessages = 10,
      SeedPopulationSize = 10, ReseedFrequency = 2000\<rparr>"

definition OneCommand_config :: "flags \<Rightarrow> FuzzerConfig" where
  "OneCommand_config fl =
     \<lparr>Iterations = episodes fl, Steps = horizon fl,
      RaftConfig = \<lparr>Replicas = replicas fl, ElectionTick = 12, HeartbeatTick = 2, TicksPerStep = 3\<rparr>,
      MutPerTrace = 5, NumberRequests = requests fl, CrashQuota = 10, MaxMessages = 5,
      SeedPopulationSize = 10, ReseedFrequency = 2000\<rparr>"

text \<open>
  \<open>rootCommand.Execute()\<close> is the cobra library: it returns \<open>nil\<close> or an error (an
  unknown command or flag, or what a command's \<open>RunE\<close> returns), or a command panics.
  \<open>main\<close> prints a returned error and then returns, which ends the process with status
  0; an unrecovered panic ends it with status 2.
\<close>

datatype execute_outcome = Returns "string option" | Panics string

record process_end =
  printed :: "string list"
  exit_code :: int

fun main :: "execute_outcome \<Rightarrow> process_end" where
  "main (Returns None) = \<lparr>printed = [], exit_code = 0\<rparr>"
| "main (Returns (Some err)) = \<lparr>printed = [err], exit_code = 0\<rparr>"
| "main (Panics msg) = \<lparr>printed = [], exit_code = 2\<rparr>"

section \<open>Fuzzer (fuzzer.go)\<close>

text \<open>Go's \<open>int\<close> is 64 bits wide here: a product wraps around.\<close>

definition int64_wrap :: "int \<Rightarrow> int" where
  "int64_wrap x = (x + 2 ^ 63) mod 2 ^ 64 - 2 ^ 63"

text \<open>Go's \<open>%\<close> truncates towards zero and panics on a zero divisor.\<close>

definition go_rem :: "int \<Rightarrow> int \<Rightarrow> error + int" where
  "go_rem a b = (if b = 0 then Inl DivideByZero else Inr (sgn a * (\<bar>a\<bar> mod \<bar>b\<bar>)))"

text \<open>\<open>strconv.Itoa\<close> and the \<open>%d\<close> of \<open>fmt.Sprintf\<close>: decimal digits, with a sign.\<close>

definition digit :: "nat \<Rightarrow> char" where
  "digit n = ''0123456789'' ! (n mod 10)"

function itoa_nat :: "nat \<Rightarrow> string" where
  "itoa_nat n = (if n < 10 then [digit n] else itoa_nat (n div 10) @ [digit n])"
  by pat_completeness auto
termination
  by (relation "measure id") auto

declare itoa_nat.simps [simp del]

definition Itoa :: "int \<Rightarrow> string" where
  "Itoa i = (if i < 0 then CHR ''-'' # itoa_nat (nat (- i)) else itoa_nat (nat i))"

text \<open>
  The fuzzer object.  \<open>world\<close> stands for what \<open>RunIteration\<close> works on (the Raft
  environment, the message queues, the strategy); \<open>guider\<close> and \<open>mutator\<close> are the
  states of the two objects held in the configuration.  \<open>stats\<close> is
  \<open>map[string]interface{}\<close>; reading a counter that is absent panics in the type
  assertion.
\<close>

record ('w, 'g, 'm) Fuzzer =
  config :: FuzzerConfig
  mutatedTracesQueue :: "trace list"
  stats :: "string \<rightharpoonup> int"
  guider :: 'g
  mutator :: 'm
  world :: 'w

text \<open>
  The methods the loop calls whose bodies are not among the sources, as parameters:
  \<open>RunIteration(name, mimic)\<close> (it may panic), \<open>Guider.Check\<close> (it may append to the
  event list it is given, and may panic), \<open>Mutator.Mutate\<close>, \<open>copyTrace\<close> with the
  default filter, and the optional \<open>Checker\<close>.
\<close>

record ('w, 'g, 'm) parts =
  RunIteration :: "string \<Rightarrow> trace option \<Rightarrow> 'w \<Rightarrow> error + (trace \<times> Event list) \<times> 'w"
  Guider_Check :: "'g \<Rightarrow> trace \<Rightarrow> Event list \<Rightarrow> ('g \<times> Event list) \<times> (error + int \<times> real)"
  Mutator_Mutate :: "'m \<Rightarrow> trace \<Rightarrow> Event list \<Rightarrow> 'm \<times> (trace \<times> bool)"
  copyTrace :: "trace \<Rightarrow> trace"
  Checker :: "('w \<Rightarrow> bool) option"

text \<open>
  \<open>for j := 0; j < numMutations; j++ { new, ok := Mutate(trace, eventTrace); if ok { Push(copyTrace(new)) } }\<close>
\<close>

function mutate_loop ::
  "('w, 'g, 'm) parts \<Rightarrow> trace \<Rightarrow> Event list \<Rightarrow> int \<Rightarrow> int \<Rightarrow> 'm \<times> trace list \<Rightarrow> 'm \<times> trace list" where
  "mutate_loop P trace eventTrace j numMutations (ms, queue) =
     (if j < numMutations
      then (case Mutator_Mutate P ms trace eventTrace of
              (ms', (new, ok)) \<Rightarrow>
                mutate_loop P trace eventTrace (j + 1) numMutations
                  (ms', if ok then Queue_Push queue (copyTrace P new) else queue))
      else (ms, queue))"
  by pat_completeness auto
termination
  by (relation "measure (\<lambda>(P, trace, eventTrace, j, numMutations, s). nat (numMutations - j))") auto

declare mutate_loop.simps [simp del]

text \<open>
  The feedback step of \<open>Run\<close>: \<open>Guider.Check\<close>, then the mutations.  \<open>Mutate\<close> is given
  the event list as \<open>Check\<close> left it.
\<close>

definition check_and_mutate ::
  "('w, 'g, 'm) parts \<Rightarrow> trace \<Rightarrow> Event list \<Rightarrow> ('w, 'g, 'm) Fuzzer
     \<Rightarrow> error + ('w, 'g, 'm) Fuzzer" where
  "check_and_mutate P trace eventTrace f =
     (case Guider_Check P (guider f) trace eventTrace of
        ((g', eventTrace'), Inl e) \<Rightarrow> Inl e
      | ((g', eventTrace'), Inr (numNewStates, r)) \<Rightarrow>
          (if numNewStates > 0
           then (let numMutations = int64_wrap (numNewStates * MutPerTrace (config f));
                     (ms', queue') =
                        mutate_loop P trace eventTrace' 0 numMutations
                          (mutator f, mutatedTracesQueue f)
                 in Inr (f\<lparr>guider := g', mutator := ms', mutatedTracesQueue := queue'\<rparr>))
           else Inr (f\<lparr>guider := g'\<rparr>)))"

text \<open>
  \<open>seed\<close>: \<open>Reset\<close> empties the queue; then \<open>SeedPopulationSize\<close> runs with a \<open>nil\<close>
  mimic, each trace pushed at the back.
\<close>

function seed_loop :: "('w, 'g, 'm) parts \<Rightarrow> int \<Rightarrow> ('w, 'g, 'm) Fuzzer \<Rightarrow> error + ('w, 'g, 'm) Fuzzer" where
  "seed_loop P i f =
     (if i < SeedPopulationSize (config f)
      then (case RunIteration P (''pop_'' @ Itoa i) None (world f) of
              Inl e \<Rightarrow> Inl e
            | Inr ((trace, eventTrace), w') \<Rightarrow>
                seed_loop P (i + 1)
                  (f\<lparr>world := w',
                     mutatedTracesQueue :=
                       Queue_Push (mutatedTracesQueue f) (copyTrace P trace)\<rparr>))
      else Inr f)"
  by pat_completeness auto
termination
  by (relation "measure (\<lambda>(P, i, f). nat (SeedPopulationSize (config f) - i))") auto

declare seed_loop.simps [simp del]

definition seed :: "('w, 'g, 'm) parts \<Rightarrow> ('w, 'g, 'm) Fuzzer \<Rightarrow> error + ('w, 'g, 'm) Fuzzer" where
  "seed P f = seed_loop P 0 (f\<lparr>mutatedTracesQueue := Queue_Reset\<rparr>)"

text \<open>
  What the two loops are said to do, written by recursion on the number of calls:
  the results of \<open>n\<close> successive calls of \<open>Mutate\<close> with the mutator after them, and
  the traces of \<open>n\<close> successive runs without a mimic, named \<open>pop_i\<close>, \<open>pop_(i+1)\<close>, ...
\<close>

fun Mutate_calls ::
  "('w, 'g, 'm) parts \<Rightarrow> trace \<Rightarrow> Event list \<Rightarrow> nat \<Rightarrow> 'm \<Rightarrow> (trace \<times> bool) list \<times> 'm" where
  "Mutate_calls P trace eventTrace 0 ms = ([], ms)"
| "Mutate_calls P trace eventTrace (Suc n) ms =
     (case Mutator_Mutate P ms trace eventTrace of
        (ms', r) \<Rightarrow>
          (case Mutate_calls P trace eventTrace n ms' of (rs, ms'') \<Rightarrow> (r # rs, ms'')))"

fun random_runs ::
  "('w, 'g, 'm) parts \<Rightarrow> int \<Rightarrow> nat \<Rightarrow> 'w \<Rightarrow> error + trace list \<times> 'w" where
  "random_runs P i 0 w = Inr ([], w)"
| "random_runs P i (Suc n) w =
     (case RunIteration P (''pop_'' @ Itoa i) None w of
        Inl e \<Rightarrow> Inl e
      | Inr ((trace, eventTrace), w') \<Rightarrow>
          (case random_runs P (i + 1) n w' of
             Inl e \<Rightarrow> Inl e
           | Inr (ts, w'') \<Rightarrow> Inr (trace # ts, w'')))"

text \<open>
  Modelled from the spec: the reseed test at the head of the loop of \<open>Run\<close>.  The loop
  of \<open>fuzzer.go\<close> is shown in the sources without it; the spec has "every
  \<open>reseedFrequency\<close> iterations, re-seed" (at iterations 0, 3, 6, 9 for a frequency of
  3), and \<open>main.go\<close> says of \<open>ReseedFrequency\<close>: "Must specify a value otherwise it
  throws the div zero error".
\<close>

definition reseed_due :: "int \<Rightarrow> int \<Rightarrow> error + bool" where
  "reseed_due i reseedFrequency =
     (case go_rem i reseedFrequency of Inl e \<Rightarrow> Inl e | Inr r \<Rightarrow> Inr (r = 0))"

text \<open>\<open>f.stats[name] = f.stats[name].(int) + 1\<close>\<close>

definition count_up :: "string \<Rightarrow> (string \<rightharpoonup> int) \<Rightarrow> error + (string \<rightharpoonup> int)" where
  "count_up name st =
     (case st name of None \<Rightarrow> Inl InterfaceConversion | Some n \<Rightarrow> Inr (st(name \<mapsto> n + 1)))"

text \<open>The choice between a mutated and a random test: the head of the queue, if any.\<close>

definition select_mimic ::
  "('w, 'g, 'm) Fuzzer \<Rightarrow> error + trace option \<times> ('w, 'g, 'm) Fuzzer" where
  "select_mimic f =
     (if Queue_Size (mutatedTracesQueue f) > 0
      then (case count_up ''mutated_executions'' (stats f) of
              Inl e \<Rightarrow> Inl e
            | Inr st \<Rightarrow>
                (case Queue_Pop (mutatedTracesQueue f) of
                   None \<Rightarrow> Inr (None, f\<lparr>stats := st\<rparr>)
                 | Some (mimic, rest) \<Rightarrow>
                     Inr (Some mimic, f\<lparr>stats := st, mutatedTracesQueue := rest\<rparr>)))
      else (case count_up ''random_executions'' (stats f) of
              Inl e \<Rightarrow> Inl e
            | Inr st \<Rightarrow> Inr (None, f\<lparr>stats := st\<rparr>)))"

text \<open>\<open>if Checker != nil && !Checker(raftEnvironment) { buggy_executions++ }\<close>\<close>

definition check_bugs ::
  "('w, 'g, 'm) parts \<Rightarrow> ('w, 'g, 'm) Fuzzer \<Rightarrow> error + ('w, 'g, 'm) Fuzzer" where
  "check_bugs P f =
     (case Checker P of
        None \<Rightarrow> Inr f
      | Some checker \<Rightarrow>
          (if \<not> checker (world f)
           then (case count_up ''buggy_executions'' (stats f) of
                   Inl e \<Rightarrow> Inl e
                 | Inr st \<Rightarrow> Inr (f\<lparr>stats := st\<rparr>))
           else Inr f))"

text \<open>
  Modelled from the spec: the loop of \<open>Run\<close> as a whole.  The sources show its parts
  (test selection, \<open>RunIteration\<close>, bug check, feedback); their order and the reseed
  test at the head follow the spec's account of an iteration.  Nothing in the loop
  writes the configuration, so the bound is passed as read at the start.
\<close>

function Run_loop ::
  "('w, 'g, 'm) parts \<Rightarrow> int \<Rightarrow> int \<Rightarrow> ('w, 'g, 'm) Fuzzer \<Rightarrow> error + ('w, 'g, 'm) Fuzzer" where
  "Run_loop P iterations i f =
     (if i < iterations
      then (case reseed_due i (ReseedFrequency (config f)) of
              Inl e \<Rightarrow> Inl e
            | Inr due \<Rightarrow>
          (case (if due then seed P f else Inr f) of
              Inl e \<Rightarrow> Inl e
            | Inr f1 \<Rightarrow>
          (case select_mimic f1 of
              Inl e \<Rightarrow> Inl e
            | Inr (mimic, f2) \<Rightarrow>
          (case RunIteration P (''fuzz_'' @ Itoa i) mimic (world f2) of
              Inl e \<Rightarrow> Inl e
            | Inr ((trace, eventTrace), w') \<Rightarrow>
          (case check_bugs P (f2\<lparr>world := w'\<rparr>) of
              Inl e \<Rightarrow> Inl e
            | Inr f3 \<Rightarrow>
          (case check_and_mutate P trace eventTrace f3 of
              Inl e \<Rightarrow> Inl e
            | Inr f4 \<Rightarrow> Run_loop P iterations (i + 1) f4))))))
      else Inr f)"
  by pat_completeness auto
termination
  by (relation "measure (\<lambda>(P, iterations, i, f). nat (iterations - i))") auto

declare Run_loop.simps [simp del]

definition Run :: "('w, 'g, 'm) parts \<Rightarrow> ('w, 'g, 'm) Fuzzer \<Rightarrow> error + ('w, 'g, 'm) Fuzzer" where
  "Run P f = Run_loop P (Iterations (config f)) 0 f"

section \<open>One iteration (the loop of RunIteration in fuzzer.go)\<close>

text \<open>
  \<open>pb.Message\<close> of the Raft library, with the fields the fuzzer reads or writes;
  \<open>Message_Type\<close> holds the name that \<open>Type.String()\<close> prints.
\<close>

record Message =
  Message_Type :: string
  Message_From :: "64 word"
  Message_To :: "64 word"
  Message_Term :: "64 word"
  Message_Entries :: "string list"

text \<open>
  \<open>traceCtx\<close> as the sources declare it; \<open>ctx_strategy\<close> stands for whatever else its
  methods read (the random source), which the declaration shown does not list.
\<close>

record 's traceCtx =
  ctx_trace :: trace
  ctx_mimicTrace :: "trace option"
  ctx_eventTrace :: "Event list"
  ctx_nodeChoices :: "SchedulingChoice list"
  ctx_booleanChoices :: "bool list"
  ctx_integerChoices :: "int list"
  ctx_crashPoints :: "int \<rightharpoonup> 64 word"
  ctx_startPoints :: "int \<rightharpoonup> 64 word"
  ctx_clientRequests :: "int \<rightharpoonup> int"
  ctx_strategy :: 's

text \<open>
  What the loop works on: the trace context and the \<open>crashed\<close> map (locals of
  \<open>RunIteration\<close>), the fuzzer's message queues and its Raft environment.  A queue is a
  list with its head at the front; a key absent from \<open>messageQueues\<close> is a \<open>nil\<close>
  queue.  \<open>delivered\<close> and \<open>enqueued\<close> are history variables: per queue key, the
  messages popped for delivery and the messages pushed, in order.
\<close>

record ('r, 's) iteration =
  tCtx :: "'s traceCtx"
  crashed :: "64 word \<rightharpoonup> bool"
  messageQueues :: "string \<rightharpoonup> Message list"
  raftEnvironment :: 'r
  delivered :: "string \<Rightarrow> Message list"
  enqueued :: "string \<Rightarrow> Message list"

text \<open>
  The methods the loop calls whose bodies are not among the sources, as parameters:
  the four queries of the trace context (each may change the context), \<open>recordSend\<close>,
  and \<open>Stop\<close>, \<open>Start\<close>, \<open>Step\<close>, \<open>Tick\<close> of the Raft environment.
\<close>

record ('r, 's) collaborators =
  CanCrash :: "'s traceCtx \<Rightarrow> int \<Rightarrow> 's traceCtx \<times> (64 word \<times> bool)"
  CanStart :: "'s traceCtx \<Rightarrow> int \<Rightarrow> 's traceCtx \<times> (64 word \<times> bool)"
  GetNextNodeChoice :: "'s traceCtx \<Rightarrow> 's traceCtx \<times> (64 word \<times> 64 word \<times> int)"
  IsClientRequest :: "'s traceCtx \<Rightarrow> int \<Rightarrow> 's traceCtx \<times> (int \<times> bool)"
  recordSend :: "Message \<Rightarrow> Event list \<Rightarrow> Event list"
  Stop :: "'r \<Rightarrow> 64 word \<Rightarrow> 'r"
  Start :: "'r \<Rightarrow> 64 word \<Rightarrow> 'r"
  Step :: "'r \<Rightarrow> Message \<Rightarrow> 'r"
  Tick :: "'r \<Rightarrow> 'r \<times> Message list"

text \<open>\<open>recordReceive\<close>, with the four parameters the sources spell out.\<close>

definition DeliverMessage_event :: "Message \<Rightarrow> Event" where
  "DeliverMessage_event message =
     \<lparr>Event_Name = ''DeliverMessage'', Event_Node = Message_To message,
      Event_Params = [(''type'', PString (Message_Type message)),
                      (''term'', PUint (Message_Term message)),
                      (''from'', PUint (Message_From message)),
                      (''to'', PUint (Message_To message))],
      Event_Reset = False\<rparr>"

definition recordReceive :: "Message \<Rightarrow> Event list \<Rightarrow> Event list" where
  "recordReceive message eventTrace = List_Append eventTrace (DeliverMessage_event message)"

text \<open>\<open>fmt.Sprintf("%d_%d", from, to)\<close>\<close>

definition queue_key :: "64 word \<Rightarrow> 64 word \<Rightarrow> string" where
  "queue_key from to = itoa_nat (unat from) @ ''_'' @ itoa_nat (unat to)"

text \<open>
  \<open>Schedule\<close>: \<open>maxMessages\<close> rounds, each popping the head of the queue if there is
  one.  \<open>Pop\<close> on a \<open>nil\<close> queue is a nil-pointer dereference.
\<close>

function Schedule_loop ::
  "int \<Rightarrow> int \<Rightarrow> Message list option \<Rightarrow> Message list
     \<Rightarrow> error + Message list option \<times> Message list" where
  "Schedule_loop i maxMessages queue messages =
     (if i < maxMessages
      then (case queue of
              None \<Rightarrow> Inl NilPointerDereference
            | Some q \<Rightarrow>
                (case Queue_Pop q of
                   None \<Rightarrow> Schedule_loop (i + 1) maxMessages queue messages
                 | Some (message, rest) \<Rightarrow>
                     Schedule_loop (i + 1) maxMessages (Some rest) (messages @ [message])))
      else Inr (queue, messages))"
  by pat_completeness auto
termination
  by (relation "measure (\<lambda>(i, maxMessages, queue, messages). nat (maxMessages - i))") auto

declare Schedule_loop.simps [simp del]

definition Schedule ::
  "(string \<rightharpoonup> Message list) \<Rightarrow> 64 word \<Rightarrow> 64 word \<Rightarrow> int
     \<Rightarrow> error + (string \<rightharpoonup> Message list) \<times> Message list" where
  "Schedule queues from to maxMessages =
     (let key = queue_key from to;
          queue = queues key
      in case Schedule_loop 0 maxMessages queue [] of
           Inl e \<Rightarrow> Inl e
         | Inr (queue', messages) \<Rightarrow>
             Inr ((case queue' of None \<Rightarrow> queues | Some q \<Rightarrow> queues(key \<mapsto> q)), messages))"

text \<open>\<open>for _, m := range messages { recordReceive(m, tCtx.eventTrace); Step(fCtx, m) }\<close>\<close>

fun deliver_all ::
  "('r, 's) collaborators \<Rightarrow> Message list \<Rightarrow> Event list \<times> 'r \<Rightarrow> Event list \<times> 'r" where
  "deliver_all D [] s = s"
| "deliver_all D (m # ms) (eventTrace, env) =
     deliver_all D ms (recordReceive m eventTrace, Step D env m)"

text \<open>The delivery block of a step, for the chosen \<open>(from, to, maxMessages)\<close>.\<close>

definition deliver ::
  "('r, 's) collaborators \<Rightarrow> 64 word \<Rightarrow> 64 word \<Rightarrow> int \<Rightarrow> ('r, 's) iteration
     \<Rightarrow> error + ('r, 's) iteration" where
  "deliver D from to maxMessages st =
     (if crashed st to = None
      then (case Schedule (messageQueues st) from to maxMessages of
              Inl e \<Rightarrow> Inl e
            | Inr (queues', messages) \<Rightarrow>
                (case deliver_all D messages (ctx_eventTrace (tCtx st), raftEnvironment st) of
                   (eventTrace', env') \<Rightarrow>
                     Inr (st\<lparr>tCtx := (tCtx st)\<lparr>ctx_eventTrace := eventTrace'\<rparr>,
                             messageQueues := queues',
                             raftEnvironment := env',
                             delivered := (delivered st)
                               (queue_key from to := delivered st (queue_key from to) @ messages)\<rparr>)))
      else Inr st)"

text \<open>
  \<open>for _, n := range Tick(fCtx) { recordSend(n, tCtx.eventTrace); messageQueues[key].Push(n) }\<close>
\<close>

fun enqueue_all ::
  "('r, 's) collaborators \<Rightarrow> Message list \<Rightarrow> ('r, 's) iteration \<Rightarrow> error + ('r, 's) iteration" where
  "enqueue_all D [] st = Inr st"
| "enqueue_all D (n # ns) st =
     (let eventTrace' = recordSend D n (ctx_eventTrace (tCtx st));
          key = queue_key (Message_From n) (Message_To n)
      in case messageQueues st key of
           None \<Rightarrow> Inl NilPointerDereference
         | Some q \<Rightarrow>
             enqueue_all D ns
               (st\<lparr>tCtx := (tCtx st)\<lparr>ctx_eventTrace := eventTrace'\<rparr>,
                   messageQueues := (messageQueues st)(key \<mapsto> Queue_Push q n),
                   enqueued := (enqueued st)(key := enqueued st key @ [n])\<rparr>))"

definition client_request :: "int \<Rightarrow> Message" where
  "client_request reqNum =
     \<lparr>Message_Type = ''MsgProp'', Message_From = 0, Message_To = 0, Message_Term = 0,
      Message_Entries = [Itoa reqNum]\<rparr>"

text \<open>The body of the loop over the steps, in the order of the source.\<close>

definition crash_or_start :: "('r, 's) collaborators \<Rightarrow> int \<Rightarrow> ('r, 's) iteration \<Rightarrow> ('r, 's) iteration" where
  "crash_or_start D j st =
     (case CanCrash D (tCtx st) j of
        (c1, (toCrash, ok1)) \<Rightarrow>
          (let st1 = (if ok1
                      then st\<lparr>tCtx := c1,
                              raftEnvironment := Stop D (raftEnvironment st) toCrash,
                              crashed := (crashed st)(toCrash \<mapsto> True)\<rparr>
                      else st\<lparr>tCtx := c1\<rparr>)
           in case CanStart D (tCtx st1) j of
                (c2, (toStart, ok2)) \<Rightarrow>
                  (if ok2 \<and> crashed st1 toStart = Some True
                   then st1\<lparr>tCtx := c2,
                            raftEnvironment := Start D (raftEnvironment st1) toStart,
                            crashed := (crashed st1)(toStart := None)\<rparr>
                   else st1\<lparr>tCtx := c2\<rparr>)))"

definition request_and_tick :: "('r, 's) collaborators \<Rightarrow> int \<Rightarrow> ('r, 's) iteration \<Rightarrow> error + ('r, 's) iteration" where
  "request_and_tick D j st =
     (case IsClientRequest D (tCtx st) j of
        (c, (reqNum, ok)) \<Rightarrow>
          (let st1 = (if ok
                      then st\<lparr>tCtx := c,
                              raftEnvironment := Step D (raftEnvironment st) (client_request reqNum)\<rparr>
                      else st\<lparr>tCtx := c\<rparr>)
           in case Tick D (raftEnvironment st1) of
                (env', ns) \<Rightarrow> enqueue_all D ns (st1\<lparr>raftEnvironment := env'\<rparr>)))"

definition step_body :: "('r, 's) collaborators \<Rightarrow> int \<Rightarrow> ('r, 's) iteration \<Rightarrow> error + ('r, 's) iteration" where
  "step_body D j st =
     (let st2 = crash_or_start D j st
      in case GetNextNodeChoice D (tCtx st2) of
           (c3, (from, to, maxMessages)) \<Rightarrow>
             (case deliver D from to maxMessages (st2\<lparr>tCtx := c3\<rparr>) of
                Inl e \<Rightarrow> Inl e
              | Inr st4 \<Rightarrow> request_and_tick D j st4))"

function run_steps ::
  "('r, 's) collaborators \<Rightarrow> int \<Rightarrow> int \<Rightarrow> ('r, 's) iteration \<Rightarrow> error + ('r, 's) iteration" where
  "run_steps D j steps st =
     (if j < steps
      then (case step_body D j st of
              Inl e \<Rightarrow> Inl e
            | Inr st' \<Rightarrow> run_steps D (j + 1) steps st')
      else Inr st)"
  by pat_completeness auto
termination
  by (relation "measure (\<lambda>(D, j, steps, st). nat (steps - j))") auto

declare run_steps.simps [simp del]

text \<open>
  The history variables agree with the queues: what was pushed under a key is what was
  popped from it followed by what is still queued.  \<open>start_history\<close> begins the
  history at the current queues.
\<close>

definition queued :: "('r, 's) iteration \<Rightarrow> string \<Rightarrow> Message list" where
  "queued st key = (case messageQueues st key of None \<Rightarrow> [] | Some q \<Rightarrow> q)"

definition fifo_history :: "('r, 's) iteration \<Rightarrow> bool" where
  "fifo_history st = (\<forall>key. enqueued st key = delivered st key @ queued st key)"

definition start_history :: "('r, 's) iteration \<Rightarrow> ('r, 's) iteration" where
  "start_history st = st\<lparr>delivered := (\<lambda>key. []), enqueued := queued st\<rparr>"

text \<open>Reading a decimal numeral back, to show that the queue keys keep the pairs apart.\<close>

definition digit_value :: "char \<Rightarrow> nat" where
  "digit_value c = length (takeWhile (\<lambda>d. d \<noteq> c) ''0123456789'')"

definition atoi :: "string \<Rightarrow> nat" where
  "atoi s = foldl (\<lambda>acc c. 10 * acc + digit_value c) 0 s"

section \<open>Concrete instances\<close>

text \<open>A client, a server that always answers with two states, and guiders over them.\<close>

definition demo_client :: TLCClient where
  "demo_client = \<lparr>ClientAddr = ''127.0.0.1:2023''\<rparr>"

definition demo_net :: net where
  "demo_net = \<lparr>json_Marshal = (\<lambda>evs. replicate (length evs) CHR ''e''),
               server = (\<lambda>log req. ''ok''),
               json_Unmarshal = (\<lambda>s. \<lparr>States = [''s1'', ''s2''], Keys = [''k1'', ''k2'']\<rparr>),
               posted = []\<rparr>"

definition demo_guider :: TLCStateGuider where
  "demo_guider = \<lparr>tlcClient = demo_client, statesMap = fmupd ''k1'' True fmempty\<rparr>"

definition fresh_guider :: TLCStateGuider where
  "fresh_guider = \<lparr>tlcClient = demo_client, statesMap = fmempty\<rparr>"

definition demo_corpus :: "trace list" where
  "demo_corpus = [[], [], []]"

text \<open>
  A guider that has seen both keys, the world after one request, the TLC guider behind
  the fuzzer's guider interface, and a fuzzer whose runs log their arguments and whose
  mutator counts its calls (it succeeds on the even ones).
\<close>

definition seen_guider :: TLCStateGuider where
  "seen_guider = \<lparr>tlcClient = demo_client, statesMap = fmupd ''k2'' True (fmupd ''k1'' True fmempty)\<rparr>"

definition demo_net_posted :: net where
  "demo_net_posted =
     demo_net\<lparr>posted := [\<lparr>url = ''http://127.0.0.1:2023/execute'',
                            content_type = ''application/json'', body = ''e''\<rparr>]\<rparr>"

definition TLCStateGuider_as_Guider ::
  "TLCStateGuider \<times> net \<Rightarrow> trace \<Rightarrow> Event list
     \<Rightarrow> ((TLCStateGuider \<times> net) \<times> Event list) \<times> (error + int \<times> real)" where
  "TLCStateGuider_as_Guider g trace eventTrace =
     (case TLCStateGuider_Check (fst g) (snd g) trace eventTrace of
        ((t', w', eventTrace'), r) \<Rightarrow> (((t', w'), eventTrace'), r))"

definition node_choice :: "64 word \<Rightarrow> 64 word \<Rightarrow> int \<Rightarrow> SchedulingChoice" where
  "node_choice a b k =
     \<lparr>Choice_Type = Node, Choice_From = a, Choice_To = b, Choice_MaxMessages = k,
      Choice_Node = 0, Choice_Step = 0, Choice_BooleanChoice = False,
      Choice_IntegerChoice = 0, Choice_Request = 0\<rparr>"

definition demo_parts :: "((string \<times> trace option) list, TLCStateGuider \<times> net, int) parts" where
  "demo_parts =
     \<lparr>RunIteration = (\<lambda>name mimic w.
         Inr (([node_choice 1 2 (int (length w))], []), w @ [(name, mimic)])),
      Guider_Check = TLCStateGuider_as_Guider,
      Mutator_Mutate = (\<lambda>c trace eventTrace.
         (c + 1, (node_choice 2 1 c # trace, c mod 2 = 0))),
      copyTrace = (\<lambda>t. t),
      Checker = None\<rparr>"

definition demo_fuzzer ::
  "TLCStateGuider \<Rightarrow> ((string \<times> trace option) list, TLCStateGuider \<times> net, int) Fuzzer" where
  "demo_fuzzer g =
     \<lparr>config = (FuzzCommand_config default_flags)\<lparr>SeedPopulationSize := 4\<rparr>,
      mutatedTracesQueue = demo_corpus, stats = Map.empty,
      guider = (g, demo_net), mutator = 0, world = []\<rparr>"

definition seeded_fuzzer ::
  "((string \<times> trace option) list, TLCStateGuider \<times> net, int) Fuzzer" where
  "seeded_fuzzer =
     (demo_fuzzer demo_guider)
       \<lparr>world := [(''pop_0'', None), (''pop_1'', None), (''pop_2'', None), (''pop_3'', None)],
        mutatedTracesQueue := [[node_choice 1 2 0], [node_choice 1 2 1],
                               [node_choice 1 2 2], [node_choice 1 2 3]]\<rparr>"

definition unseeded_fuzzer ::
  "TLCStateGuider \<Rightarrow> ((string \<times> trace option) list, TLCStateGuider \<times> net, int) Fuzzer" where
  "unseeded_fuzzer g = (demo_fuzzer g)\<lparr>config := (config (demo_fuzzer g))\<lparr>ReseedFrequency := 0\<rparr>\<rparr>"

text \<open>
  A Raft environment that logs the messages it is stepped with, and an iteration with
  three messages queued from node 1 to node 2.
\<close>

definition msg :: "64 word \<Rightarrow> 64 word \<Rightarrow> 64 word \<Rightarrow> Message" where
  "msg a b t = \<lparr>Message_Type = ''MsgApp'', Message_From = a, Message_To = b, Message_Term = t,
                Message_Entries = []\<rparr>"

definition demo_collaborators :: "(Message list, unit) collaborators" where
  "demo_collaborators =
     \<lparr>CanCrash = (\<lambda>c j. (c, (3, j = 1))),
      CanStart = (\<lambda>c j. (c, (0, False))),
      GetNextNodeChoice = (\<lambda>c. (c, (1, 2, 2))),
      IsClientRequest = (\<lambda>c j. (c, (1, j = 0))),
      recordSend = (\<lambda>m ev. ev @ [\<lparr>Event_Name = ''SendMessage'', Event_Node = Message_From m,
                                     Event_Params = [], Event_Reset = False\<rparr>]),
      Stop = (\<lambda>env n. env),
      Start = (\<lambda>env n. env),
      Step = (\<lambda>env m. env @ [m]),
      Tick = (\<lambda>env. (env, [msg 1 2 (of_nat (length env))]))\<rparr>"

definition demo_iteration :: "(Message list, unit) iteration" where
  "demo_iteration =
     \<lparr>tCtx = \<lparr>ctx_trace = [], ctx_mimicTrace = None, ctx_eventTrace = [], ctx_nodeChoices = [],
              ctx_booleanChoices = [], ctx_integerChoices = [], ctx_crashPoints = Map.empty,
              ctx_startPoints = Map.empty, ctx_clientRequests = Map.empty, ctx_strategy = ()\<rparr>,
      crashed = Map.empty,
      messageQueues = [''1_2'' \<mapsto> [msg 1 2 5, msg 1 2 6, msg 1 2 7], ''2_1'' \<mapsto> []],
      raftEnvironment = [],
      delivered = (\<lambda>key. []),
      enqueued = (\<lambda>key. [])\<rparr>"

section \<open>Properties of the TLC client\<close>

lemma fill_states_Inr:
  "length result = i + length ss \<Longrightarrow> i + length ss \<le> length keys \<Longrightarrow>
   fill_states i ss keys result =
     Inr (take i result @ map (\<lambda>(s, k). \<lparr>Repr = s, Key = k\<rparr>) (zip ss (drop i keys)))"
proof (induction ss arbitrary: i result)
  case Nil
  then show ?case by simp
next
  case (Cons s ss)
  let ?r = "result[i := \<lparr>Repr = s, Key = keys ! i\<rparr>]"
  have i: "i < length keys" "i < length result" using Cons.prems by simp_all
  have len: "length ?r = Suc i + length ss" using Cons.prems by simp
  have le: "Suc i + length ss \<le> length keys" using Cons.prems by simp
  have tk: "take (Suc i) ?r = take i result @ [\<lparr>Repr = s, Key = keys ! i\<rparr>]"
    using i by (simp add: take_Suc_conv_app_nth)
  have dr: "drop i keys = keys ! i # drop (Suc i) keys"
    using i by (simp add: Cons_nth_drop_Suc)
  show ?case
    using Cons.IH [OF len le] i by (simp add: tk dr)
qed

lemma fill_states_zip:
  "length ss \<le> length keys \<Longrightarrow>
   fill_states 0 ss keys (replicate (length ss) z) =
     Inr (map (\<lambda>(s, k). \<lparr>Repr = s, Key = k\<rparr>) (zip ss keys))"
  using fill_states_Inr [of "replicate (length ss) z" 0 ss keys] by simp

lemma SendTrace_fst:
  "fst (SendTrace c w trace) =
     (trace @ [Reset_Event],
      w\<lparr>posted := posted w @
         [\<lparr>url = ''http://'' @ ClientAddr c @ ''/execute'',
           content_type = ''application/json'',
           body = json_Marshal w (trace @ [Reset_Event])\<rparr>]\<rparr>)"
  by (simp add: SendTrace_def Let_def)

lemma SendTrace_snd:
  "snd (SendTrace c w trace) =
     fill_states 0 (States (tlc_response c w trace)) (Keys (tlc_response c w trace))
       (replicate (length (States (tlc_response c w trace))) zero_State)"
  by (simp add: SendTrace_def tlc_response_def Let_def)

text \<open>
  Claim C9.  When the response parsed for the trace has \<open>n\<close> states and \<open>n\<close> keys,
  \<open>SendTrace\<close> leaves the trace with a \<open>Reset\<close> appended, has posted the marshalled
  trace (with that \<open>Reset\<close>) to \<open>http://{addr}/execute\<close>, and returns the \<open>n\<close>
  states pairing \<open>States[i]\<close> with \<open>Keys[i]\<close>.
\<close>

theorem SendTrace_zips_response:
  assumes "length (States (tlc_response c w trace)) = n"
    and "length (Keys (tlc_response c w trace)) = n"
  shows "SendTrace c w trace =
           ((trace @ [Reset_Event],
             w\<lparr>posted := posted w @
                [\<lparr>url = ''http://'' @ ClientAddr c @ ''/execute'',
                  content_type = ''application/json'',
                  body = json_Marshal w (trace @ [Reset_Event])\<rparr>]\<rparr>),
            Inr (map (\<lambda>(s, k). \<lparr>Repr = s, Key = k\<rparr>)
                   (zip (States (tlc_response c w trace)) (Keys (tlc_response c w trace)))))
         \<and> length (map (\<lambda>(s, k). \<lparr>Repr = s, Key = k\<rparr>)
                   (zip (States (tlc_response c w trace)) (Keys (tlc_response c w trace)))) = n"
proof -
  have "snd (SendTrace c w trace) =
          Inr (map (\<lambda>(s, k). \<lparr>Repr = s, Key = k\<rparr>)
                 (zip (States (tlc_response c w trace)) (Keys (tlc_response c w trace))))"
    unfolding SendTrace_snd using assms by (intro fill_states_zip) simp
  then show ?thesis
    using assms SendTrace_fst [of c w trace] by (simp add: prod_eq_iff)
qed

theorem SendTrace_zips_response_witness:
  "length (States (tlc_response demo_client demo_net [])) = 2
   \<and> length (Keys (tlc_response demo_client demo_net [])) = 2
   \<and> snd (SendTrace demo_client demo_net []) =
       Inr [\<lparr>Repr = ''s1'', Key = ''k1''\<rparr>, \<lparr>Repr = ''s2'', Key = ''k2''\<rparr>]
   \<and> posted (snd (fst (SendTrace demo_client demo_net []))) =
       [\<lparr>url = ''http://127.0.0.1:2023/execute'', content_type = ''application/json'', body = ''e''\<rparr>]"
proof -
  have a: "length (States (tlc_response demo_client demo_net [])) = 2"
    by (simp add: tlc_response_def demo_net_def)
  have b: "length (Keys (tlc_response demo_client demo_net [])) = 2"
    by (simp add: tlc_response_def demo_net_def)
  show ?thesis
    using SendTrace_zips_response [OF a b] a b
    by (simp add: tlc_response_def demo_net_def demo_client_def)
qed

lemma SendTrace_trace: "fst (fst (SendTrace c w ev)) = ev @ [Reset_Event]"
  by (simp add: SendTrace_fst)

lemma TLCStateGuider_Check_trace:
  "snd (snd (fst (TLCStateGuider_Check t w trace ev))) = ev @ [Reset_Event]"
proof -
  obtain ev' w' r where s: "SendTrace (tlcClient t) w ev = ((ev', w'), r)"
    by (metis surj_pair)
  then have "ev' = ev @ [Reset_Event]"
    using SendTrace_trace [of "tlcClient t" w ev] by simp
  then show ?thesis
    using s by (simp add: TLCStateGuider_Check_def Let_def split: sum.splits prod.splits)
qed

lemma TraceCoverageGuider_Check_trace:
  "snd (snd (fst (TraceCoverageGuider_Check h t w trace ev))) = ev @ [Reset_Event]"
proof -
  obtain g' w' ev' r where s: "TLCStateGuider_Check (embedded t) w trace ev = ((g', w', ev'), r)"
    by (metis surj_pair)
  then have "ev' = ev @ [Reset_Event]"
    using TLCStateGuider_Check_trace [of "embedded t" w trace ev] by simp
  then show ?thesis
    using s by (simp add: TraceCoverageGuider_Check_def Let_def split: sum.splits prod.splits if_splits)
qed

text \<open>
  Claim C10.  After \<open>SendTrace\<close>, and after the \<open>Check\<close> of either TLC-backed guider,
  the caller's event list is one element longer, its last element is the \<open>Reset\<close>
  event, and the elements before it are the old list.  This holds also when the call
  panics after the append.
\<close>

theorem SendTrace_appends_Reset_in_place:
  "(let ev' = fst (fst (SendTrace c w ev))
    in length ev' = Suc (length ev) \<and> last ev' = Reset_Event \<and> Event_Reset (last ev')
       \<and> take (length ev) ev' = ev)
   \<and> (let ev' = snd (snd (fst (TLCStateGuider_Check t w trace ev)))
    in length ev' = Suc (length ev) \<and> last ev' = Reset_Event \<and> Event_Reset (last ev')
       \<and> take (length ev) ev' = ev)
   \<and> (let ev' = snd (snd (fst (TraceCoverageGuider_Check h tc w trace ev)))
    in length ev' = Suc (length ev) \<and> last ev' = Reset_Event \<and> Event_Reset (last ev')
       \<and> take (length ev) ev' = ev)"
  by (simp add: SendTrace_trace TLCStateGuider_Check_trace TraceCoverageGuider_Check_trace
      Reset_Event_def)


lemma count_new_card:
  "count_new ss n m = (n', m') \<Longrightarrow>
     fmdom m |\<subseteq>| fmdom m' \<and> n' - n = int (fcard (fmdom m')) - int (fcard (fmdom m))"
proof (induction ss arbitrary: n m)
  case Nil
  then show ?case by simp
next
  case (Cons s ss)
  show ?case
  proof (cases "fmlookup m (Key s) = None")
    case True
    then have notin: "Key s |\<notin>| fmdom m" by (simp add: fmdom_notI)
    from True Cons.prems have "count_new ss (n + 1) (fmupd (Key s) True m) = (n', m')" by simp
    from Cons.IH [OF this] notin show ?thesis
      by (auto simp: fcard_finsert_disjoint)
  next
    case False
    with Cons.prems have "count_new ss n m = (n', m')" by simp
    from Cons.IH [OF this] show ?thesis .
  qed
qed

lemma fcard_member_pos: "x |\<in>| A \<Longrightarrow> 1 \<le> fcard A"
proof -
  assume "x |\<in>| A"
  then have "{|x|} |\<subseteq>| A" by simp
  then have "fcard {|x|} \<le> fcard A" by (rule fcard_mono)
  then show ?thesis by (simp add: fcard_finsert_if)
qed

lemma TLCStateGuider_Check_Inl:
  "TLCStateGuider_Check t w trace ev = ((t', w', ev'), Inl e) \<Longrightarrow> t' = t"
  by (auto simp: TLCStateGuider_Check_def Let_def split: sum.splits prod.splits)

lemma TLCStateGuider_Check_Inr:
  "TLCStateGuider_Check t w trace ev = ((t', w', ev'), Inr (n, r)) \<Longrightarrow>
     (\<exists>tlcStates. snd (SendTrace (tlcClient t) w ev) = Inr tlcStates
        \<and> count_new tlcStates 0 (statesMap t) = (n, statesMap t'))
     \<and> r = ratio n (max (int (fcard (fmdom (statesMap t')))) 1)"
  by (auto simp: TLCStateGuider_Check_def Let_def split: sum.splits prod.splits)

lemma TLCStateGuider_Check_grows:
  assumes "TLCStateGuider_Check t w trace ev = ((t', w', ev'), res)"
  shows "fmdom (statesMap t) |\<subseteq>| fmdom (statesMap t')
         \<and> fcard (fmdom (statesMap t)) \<le> fcard (fmdom (statesMap t'))
         \<and> (case res of
               Inl e \<Rightarrow> statesMap t' = statesMap t
             | Inr (numNew, r) \<Rightarrow>
                 numNew = int (fcard (fmdom (statesMap t'))) - int (fcard (fmdom (statesMap t))))"
proof (cases res)
  case (Inl e)
  with assms have "t' = t" by (simp add: TLCStateGuider_Check_Inl)
  with Inl show ?thesis by simp
next
  case (Inr p)
  obtain n r where p: "p = (n, r)" by (cases p)
  from assms Inr p obtain tlcStates where
    c: "count_new tlcStates 0 (statesMap t) = (n, statesMap t')"
    using TLCStateGuider_Check_Inr [of t w trace ev t' w' ev' n r] by auto
  from count_new_card [OF c] have
    sub: "fmdom (statesMap t) |\<subseteq>| fmdom (statesMap t')" and
    eq: "n = int (fcard (fmdom (statesMap t'))) - int (fcard (fmdom (statesMap t)))"
    by simp_all
  from sub have "fcard (fmdom (statesMap t)) \<le> fcard (fmdom (statesMap t'))"
    by (rule fcard_mono)
  with sub eq Inr p show ?thesis by simp
qed

lemma TraceCoverageGuider_Check_grows:
  assumes "TraceCoverageGuider_Check h c w trace ev = ((c', w', ev'), res)"
  shows "fmdom (traces c) |\<subseteq>| fmdom (traces c')
         \<and> fcard (fmdom (traces c)) \<le> fcard (fmdom (traces c'))
         \<and> fmdom (statesMap (embedded c)) |\<subseteq>| fmdom (statesMap (embedded c'))
         \<and> (case res of
               Inl e \<Rightarrow> traces c' = traces c
             | Inr (new, r) \<Rightarrow>
                 new = int (fcard (fmdom (traces c'))) - int (fcard (fmdom (traces c))))"
proof -
  obtain g1 w1 ev1 r1 where s: "TLCStateGuider_Check (embedded c) w trace ev = ((g1, w1, ev1), r1)"
    by (metis surj_pair)
  from TLCStateGuider_Check_grows [OF s]
  have sub: "fmdom (statesMap (embedded c)) |\<subseteq>| fmdom (statesMap g1)" by simp
  show ?thesis
  proof (cases r1)
    case (Inl e)
    with assms s have "c' = c\<lparr>embedded := g1\<rparr>" and "res = Inl e"
      by (auto simp: TraceCoverageGuider_Check_def)
    with sub show ?thesis by simp
  next
    case (Inr p)
    show ?thesis
    proof (cases "fmlookup (traces c) (h ev1) = None")
      case True
      then have notin: "h ev1 |\<notin>| fmdom (traces c)" by (simp add: fmdom_notI)
      from True Inr assms s have
        "c' = c\<lparr>embedded := g1, traces := fmupd (h ev1) True (traces c)\<rparr>"
        and "res = Inr (1, ratio 1 (int (fcard (fmdom (fmupd (h ev1) True (traces c))))))"
        by (auto simp: TraceCoverageGuider_Check_def Let_def)
      with sub notin show ?thesis
        by (auto simp: fcard_finsert_disjoint)
    next
      case False
      with Inr assms s have "c' = c\<lparr>embedded := g1\<rparr>"
        and "res = Inr (0, ratio 0 (int (fcard (fmdom (traces c)))))"
        by (auto simp: TraceCoverageGuider_Check_def Let_def)
      with sub show ?thesis by simp
    qed
  qed
qed

text \<open>
  Claim C3.  A call of \<open>TLCStateGuider.Check\<close> only adds keys to \<open>statesMap\<close>, so its
  size does not decrease from one call to the next, and the \<open>numNew\<close> it returns is
  the increase of that size.  A call that panics leaves the map as it was.  The same
  holds of \<open>TraceCoverageGuider.Check\<close> for the set \<open>traces\<close> its result counts, and
  the state keys of the guider it embeds only grow.
\<close>

theorem seen_states_grow_by_numNew:
  "(TLCStateGuider_Check t w trace ev = ((t', w', ev'), res) \<longrightarrow>
      fmdom (statesMap t) |\<subseteq>| fmdom (statesMap t')
      \<and> fcard (fmdom (statesMap t)) \<le> fcard (fmdom (statesMap t'))
      \<and> (case res of
            Inl e \<Rightarrow> statesMap t' = statesMap t
          | Inr (numNew, r) \<Rightarrow>
              numNew = int (fcard (fmdom (statesMap t'))) - int (fcard (fmdom (statesMap t)))))
   \<and> (TraceCoverageGuider_Check h c w2 trace2 ev2 = ((c', w2', ev2'), res2) \<longrightarrow>
      fmdom (traces c) |\<subseteq>| fmdom (traces c')
      \<and> fcard (fmdom (traces c)) \<le> fcard (fmdom (traces c'))
      \<and> fmdom (statesMap (embedded c)) |\<subseteq>| fmdom (statesMap (embedded c'))
      \<and> (case res2 of
            Inl e \<Rightarrow> traces c' = traces c
          | Inr (new, r) \<Rightarrow>
              new = int (fcard (fmdom (traces c'))) - int (fcard (fmdom (traces c)))))"
  using TLCStateGuider_Check_grows [of t w trace ev t' w' ev' res]
    TraceCoverageGuider_Check_grows [of h c w2 trace2 ev2 c' w2' ev2' res2]
  by blast

lemma demo_check:
  "TLCStateGuider_Check demo_guider demo_net [] [] =
     ((demo_guider\<lparr>statesMap := fmupd ''k2'' True (fmupd ''k1'' True fmempty)\<rparr>,
       demo_net\<lparr>posted := [\<lparr>url = ''http://127.0.0.1:2023/execute'',
                             content_type = ''application/json'', body = ''e''\<rparr>]\<rparr>,
       [Reset_Event]),
      Inr (1, 1 / 2))"
  by (simp add: TLCStateGuider_Check_def SendTrace_def demo_guider_def demo_net_def
      demo_client_def zero_State_def ratio_def fcard_finsert_if Let_def)

lemma demo_trace_check:
  "TraceCoverageGuider_Check (\<lambda>evs. ''h'') \<lparr>embedded = demo_guider, traces = fmempty\<rparr>
       demo_net [] [] =
     ((\<lparr>embedded = demo_guider\<lparr>statesMap := fmupd ''k2'' True (fmupd ''k1'' True fmempty)\<rparr>,
        traces = fmupd ''h'' True fmempty\<rparr>,
       demo_net\<lparr>posted := [\<lparr>url = ''http://127.0.0.1:2023/execute'',
                             content_type = ''application/json'', body = ''e''\<rparr>]\<rparr>,
       [Reset_Event]),
      Inr (1, 1))"
  by (simp add: TraceCoverageGuider_Check_def demo_check ratio_def fcard_finsert_if)

theorem seen_states_grow_by_numNew_witness:
  "fcard (fmdom (statesMap demo_guider)) = 1
   \<and> fcard (fmdom (fmupd ''k2'' True (fmupd ''k1'' True fmempty) :: (string, bool) fmap)) = 2
   \<and> (1::int) = int 2 - int 1
   \<and> fcard (fmdom (fmempty :: (string, bool) fmap)) = 0
   \<and> fcard (fmdom (fmupd ''h'' True fmempty :: (string, bool) fmap)) = 1
   \<and> (1::int) = int 1 - int 0"
  using seen_states_grow_by_numNew [where t = demo_guider and w = demo_net and trace = "[]"
      and ev = "[]" and res = "Inr (1, 1 / 2)"
      and t' = "demo_guider\<lparr>statesMap := fmupd ''k2'' True (fmupd ''k1'' True fmempty)\<rparr>"
      and h = "\<lambda>evs. ''h''" and c = "\<lparr>embedded = demo_guider, traces = fmempty\<rparr>"
      and ?w2.0 = demo_net and ?trace2.0 = "[]" and ?ev2.0 = "[]" and ?res2.0 = "Inr (1, 1)"
      and c' = "\<lparr>embedded = demo_guider\<lparr>statesMap :=
                    fmupd ''k2'' True (fmupd ''k1'' True fmempty)\<rparr>,
                  traces = fmupd ''h'' True fmempty\<rparr>"]
    demo_check demo_trace_check
  by (simp add: demo_guider_def fcard_finsert_if)

text \<open>
  Claim C1, as stated, fails: for a fuzzer with three schedules in its corpus queue
  whose guider finds two new keys with an empty \<open>statesMap\<close>, \<open>Check\<close> returns the
  ratio \<open>2 / 2\<close>, not \<open>2 / 3\<close>.
\<close>

theorem novelty_ratio_counterexample:
  "snd (Guider_Check demo_parts (guider (demo_fuzzer fresh_guider)) [] []) = Inr (2, 1)
   \<and> length (mutatedTracesQueue (demo_fuzzer fresh_guider)) = 3
   \<and> (1::real) \<noteq> real_of_int 2 / real_of_int (max (int 3) 1)"
  by (simp add: demo_parts_def demo_fuzzer_def TLCStateGuider_as_Guider_def
      TLCStateGuider_Check_def SendTrace_def fresh_guider_def demo_net_def
      demo_client_def demo_corpus_def zero_State_def ratio_def fcard_finsert_if Let_def)

text \<open>
  Claim C1, amended.  The ratio returned by \<open>TLCStateGuider.Check\<close> is \<open>numNew\<close> over
  the size of \<open>statesMap\<close> after the call (at least 1); the ratio returned by
  \<open>TraceCoverageGuider.Check\<close> is \<open>new\<close> over the size of \<open>traces\<close> after the call,
  which is never 0.  Neither guider reads the corpus queue.
\<close>

theorem novelty_ratio_over_seen:
  "(TLCStateGuider_Check t w trace ev = ((t', w', ev'), Inr (numNew, r)) \<longrightarrow>
      r = real_of_int numNew / real_of_int (max (int (fcard (fmdom (statesMap t')))) 1))
   \<and> (TraceCoverageGuider_Check h c w trace ev = ((c', w', ev'), Inr (new, r')) \<longrightarrow>
      r' = real_of_int new / real_of_int (max (int (fcard (fmdom (traces c')))) 1))"
proof (intro conjI impI)
  assume "TLCStateGuider_Check t w trace ev = ((t', w', ev'), Inr (numNew, r))"
  from TLCStateGuider_Check_Inr [OF this]
  show "r = real_of_int numNew / real_of_int (max (int (fcard (fmdom (statesMap t')))) 1)"
    by (simp add: ratio_def)
next
  assume a: "TraceCoverageGuider_Check h c w trace ev = ((c', w', ev'), Inr (new, r'))"
  obtain g1 w1 ev1 r1 where s: "TLCStateGuider_Check (embedded c) w trace ev = ((g1, w1, ev1), r1)"
    by (metis surj_pair)
  show "r' = real_of_int new / real_of_int (max (int (fcard (fmdom (traces c')))) 1)"
  proof (cases "fmlookup (traces c) (h ev1) = None")
    case True
    with a s have "traces c' = fmupd (h ev1) True (traces c)"
      and "r' = ratio new (int (fcard (fmdom (traces c'))))"
      by (auto simp: TraceCoverageGuider_Check_def Let_def split: sum.splits)
    moreover have "1 \<le> fcard (fmdom (fmupd (h ev1) True (traces c)))"
      by (rule fcard_member_pos [of "h ev1"]) simp
    ultimately show ?thesis by (simp add: ratio_def max_def)
  next
    case False
    then have "h ev1 |\<in>| fmdom (traces c)" by (auto intro: fmdomI)
    then have pos: "1 \<le> fcard (fmdom (traces c))" by (rule fcard_member_pos)
    from False a s have "traces c' = traces c"
      and "r' = ratio new (int (fcard (fmdom (traces c'))))"
      by (auto simp: TraceCoverageGuider_Check_def Let_def split: sum.splits)
    with pos show ?thesis by (simp add: ratio_def max_def)
  qed
qed

theorem novelty_ratio_over_seen_witness:
  "(1 / 2 :: real) = real_of_int 1 / real_of_int (max (int 2) 1)
   \<and> (1 :: real) = real_of_int 1 / real_of_int (max (int 1) 1)"
  using novelty_ratio_over_seen [of demo_guider demo_net "[]" "[]"
      "demo_guider\<lparr>statesMap := fmupd ''k2'' True (fmupd ''k1'' True fmempty)\<rparr>"
      "demo_net\<lparr>posted := [\<lparr>url = ''http://127.0.0.1:2023/execute'',
                             content_type = ''application/json'', body = ''e''\<rparr>]\<rparr>"
      "[Reset_Event]" 1 "1 / 2" "\<lambda>evs. ''h''" "\<lparr>embedded = demo_guider, traces = fmempty\<rparr>"
      "\<lparr>embedded = demo_guider\<lparr>statesMap := fmupd ''k2'' True (fmupd ''k1'' True fmempty)\<rparr>,
        traces = fmupd ''h'' True fmempty\<rparr>" 1 1]
    demo_check demo_trace_check
  by (simp add: fcard_finsert_if)

section \<open>Properties of main\<close>

text \<open>
  Claim C8, as stated, fails: when \<open>Execute\<close> returns an error, \<open>main\<close> prints it and
  the process still ends with status 0.
\<close>

theorem exit_code_counterexample:
  "exit_code (main (Returns (Some ''unknown command''))) = 0"
  by simp

text \<open>
  Claim C8, amended.  Whenever \<open>Execute\<close> returns, with or without an error, the exit
  code is 0; a returned error is printed and nothing else is done with it.
\<close>

theorem exit_code_zero_when_Execute_returns:
  "exit_code (main (Returns r)) = 0
   \<and> printed (main (Returns None)) = []
   \<and> printed (main (Returns (Some err))) = [err]"
  by (cases r) simp_all

section \<open>Properties of the fuzzer loop\<close>

lemma Run_faults:
  "ReseedFrequency (config f) = 0 \<Longrightarrow> 0 < Iterations (config f) \<Longrightarrow> Run P f = Inl DivideByZero"
  by (simp add: Run_def Run_loop.simps [of P _ 0 f] reseed_due_def go_rem_def)

text \<open>
  Claim C7.  With a reseed frequency of at least 1 the reseed test does not divide by
  zero (and, from iteration 0 on, is true exactly at the multiples of the frequency);
  with frequency 0 it panics with a division by zero at every iteration, so \<open>Run\<close>
  faults as soon as it has an iteration to run.  Both commands of \<open>main.go\<close> set the
  frequency to 2000.
\<close>

theorem reseed_test_divides:
  "(1 \<le> reseedFrequency \<longrightarrow>
      reseed_due i reseedFrequency \<noteq> Inl DivideByZero
      \<and> (0 \<le> i \<longrightarrow> reseed_due i reseedFrequency = Inr (i mod reseedFrequency = 0)))
   \<and> reseed_due i 0 = Inl DivideByZero
   \<and> (ReseedFrequency (config f) = 0 \<longrightarrow> 0 < Iterations (config f) \<longrightarrow>
        Run P f = Inl DivideByZero)
   \<and> reseed_due i (ReseedFrequency (FuzzCommand_config fl)) \<noteq> Inl DivideByZero
   \<and> reseed_due i (ReseedFrequency (OneCommand_config fl)) \<noteq> Inl DivideByZero"
  using Run_faults [of f P]
  by (auto simp: reseed_due_def go_rem_def FuzzCommand_config_def OneCommand_config_def sgn_if)

theorem reseed_test_divides_witness:
  "(1::int) \<le> 3 \<and> reseed_due 6 3 = Inr True \<and> reseed_due 7 3 = Inr False
   \<and> reseed_due 6 3 \<noteq> Inl DivideByZero \<and> reseed_due 6 0 = Inl DivideByZero
   \<and> ReseedFrequency (config (unseeded_fuzzer demo_guider)) = 0
   \<and> 0 < Iterations (config (unseeded_fuzzer demo_guider))
   \<and> Run demo_parts (unseeded_fuzzer demo_guider) = Inl DivideByZero"
proof -
  have a: "ReseedFrequency (config (unseeded_fuzzer demo_guider)) = 0"
    by (simp add: unseeded_fuzzer_def)
  have b: "0 < Iterations (config (unseeded_fuzzer demo_guider))"
    by (simp add: unseeded_fuzzer_def demo_fuzzer_def FuzzCommand_config_def default_flags_def)
  have c: "(1::int) \<le> 3" "(0::int) \<le> 6" "(0::int) \<le> 7" by simp_all
  show ?thesis
    using a b c
      reseed_test_divides [where reseedFrequency = 3 and i = 6 and P = demo_parts
        and f = "unseeded_fuzzer demo_guider" and fl = default_flags]
      reseed_test_divides [where reseedFrequency = 3 and i = 7 and P = demo_parts
        and f = "unseeded_fuzzer demo_guider" and fl = default_flags]
    by simp
qed

lemma Mutate_calls_length: "length (fst (Mutate_calls P trace ev n ms)) = n"
proof (induction n arbitrary: ms)
  case 0
  then show ?case by simp
next
  case (Suc n)
  obtain ms' r where m: "Mutator_Mutate P ms trace ev = (ms', r)" by (cases "Mutator_Mutate P ms trace ev")
  obtain rs ms'' where c: "Mutate_calls P trace ev n ms' = (rs, ms'')" by (cases "Mutate_calls P trace ev n ms'")
  from Suc [of ms'] c have "length rs = n" by simp
  with m c show ?case by simp
qed

lemma mutate_loop_calls:
  "mutate_loop P trace ev j n (ms, q) =
     (snd (Mutate_calls P trace ev (nat (n - j)) ms),
      q @ map (copyTrace P \<circ> fst) (filter snd (fst (Mutate_calls P trace ev (nat (n - j)) ms))))"
proof (induction P trace ev j n "(ms, q)" arbitrary: ms q rule: mutate_loop.induct)
  case (1 P trace ev j n ms q)
  show ?case
  proof (cases "j < n")
    case False
    then show ?thesis by (simp add: mutate_loop.simps)
  next
    case True
    obtain ms' new ok where m: "Mutator_Mutate P ms trace ev = (ms', (new, ok))"
      by (metis surj_pair)
    from True have n: "nat (n - j) = Suc (nat (n - (j + 1)))" by simp
    obtain rs ms'' where r: "Mutate_calls P trace ev (nat (n - (j + 1))) ms' = (rs, ms'')"
      by (metis surj_pair)
    have ih: "mutate_loop P trace ev (j + 1) n
                (ms', if ok then Queue_Push q (copyTrace P new) else q) =
              (ms'', (if ok then Queue_Push q (copyTrace P new) else q)
                       @ map (copyTrace P \<circ> fst) (filter snd rs))"
      using "1" [OF True m [symmetric] refl] r by simp
    show ?thesis
      unfolding n
      using True m r ih by (cases ok) (simp_all add: mutate_loop.simps [of P trace ev j n])
  qed
qed

text \<open>
  Claim C2.  When \<open>Check\<close> returns \<open>numNew = k > 0\<close> (and \<open>k * MutPerTrace\<close> is a
  count that fits Go's \<open>int\<close>), the feedback step makes exactly \<open>k * MutPerTrace\<close>
  successive calls of \<open>Mutate\<close> on the executed trace and the event list as \<open>Check\<close>
  left it, appends to the corpus the copy of every result that came with
  \<open>ok = true\<close>, in order, and drops the others.  When \<open>k\<close> is not positive the
  mutator is not called and the corpus is unchanged.
\<close>

theorem mutation_budget:
  assumes "Guider_Check P (guider f) trace ev = ((g', ev'), Inr (k, r))"
  shows "(0 < k \<longrightarrow> 0 \<le> MutPerTrace (config f) \<longrightarrow> k * MutPerTrace (config f) < 2 ^ 63 \<longrightarrow>
            length (fst (Mutate_calls P trace ev' (nat (k * MutPerTrace (config f))) (mutator f)))
              = nat (k * MutPerTrace (config f))
            \<and> check_and_mutate P trace ev f =
                Inr (f\<lparr>guider := g',
                       mutator := snd (Mutate_calls P trace ev'
                                         (nat (k * MutPerTrace (config f))) (mutator f)),
                       mutatedTracesQueue := mutatedTracesQueue f @
                         map (copyTrace P \<circ> fst)
                           (filter snd (fst (Mutate_calls P trace ev'
                              (nat (k * MutPerTrace (config f))) (mutator f))))\<rparr>))
         \<and> (k \<le> 0 \<longrightarrow> check_and_mutate P trace ev f = Inr (f\<lparr>guider := g'\<rparr>))"
proof (intro conjI impI)
  assume k: "0 < k" and m: "0 \<le> MutPerTrace (config f)" and b: "k * MutPerTrace (config f) < 2 ^ 63"
  from k m have "0 \<le> k * MutPerTrace (config f)" by simp
  with b have w: "int64_wrap (k * MutPerTrace (config f)) = k * MutPerTrace (config f)"
    by (simp add: int64_wrap_def)
  show "check_and_mutate P trace ev f =
          Inr (f\<lparr>guider := g',
                 mutator := snd (Mutate_calls P trace ev'
                                   (nat (k * MutPerTrace (config f))) (mutator f)),
                 mutatedTracesQueue := mutatedTracesQueue f @
                   map (copyTrace P \<circ> fst)
                     (filter snd (fst (Mutate_calls P trace ev'
                        (nat (k * MutPerTrace (config f))) (mutator f))))\<rparr>)"
    using assms k by (simp add: check_and_mutate_def w mutate_loop_calls Let_def)
next
  assume "k \<le> 0"
  then show "check_and_mutate P trace ev f = Inr (f\<lparr>guider := g'\<rparr>)"
    using assms by (simp add: check_and_mutate_def)
qed (simp add: Mutate_calls_length)

lemma demo_check':
  "TLCStateGuider_Check demo_guider demo_net [] [] =
     ((seen_guider, demo_net_posted, [Reset_Event]), Inr (1, 1 / 2))"
  by (simp add: TLCStateGuider_Check_def SendTrace_def demo_guider_def demo_net_def seen_guider_def
      demo_client_def zero_State_def ratio_def fcard_finsert_if Let_def demo_net_posted_def)

lemma seen_check:
  "TLCStateGuider_Check seen_guider demo_net [] [] =
     ((seen_guider, demo_net_posted, [Reset_Event]), Inr (0, 0))"
  by (simp add: TLCStateGuider_Check_def SendTrace_def demo_net_def seen_guider_def
      demo_client_def zero_State_def ratio_def fcard_finsert_if Let_def demo_net_posted_def)

lemma demo_Guider_Check:
  "Guider_Check demo_parts (guider (demo_fuzzer demo_guider)) [] [] =
     (((seen_guider, demo_net_posted), [Reset_Event]), Inr (1, 1 / 2))"
  by (simp add: demo_parts_def demo_fuzzer_def TLCStateGuider_as_Guider_def demo_check')

lemma seen_Guider_Check:
  "Guider_Check demo_parts (guider (demo_fuzzer seen_guider)) [] [] =
     (((seen_guider, demo_net_posted), [Reset_Event]), Inr (0, 0))"
  by (simp add: demo_parts_def demo_fuzzer_def TLCStateGuider_as_Guider_def seen_check)

theorem mutation_budget_witness:
  "(0::int) < 1 \<and> 0 \<le> MutPerTrace (config (demo_fuzzer demo_guider))
   \<and> 1 * MutPerTrace (config (demo_fuzzer demo_guider)) < 2 ^ 63
   \<and> 1 * MutPerTrace (config (demo_fuzzer demo_guider)) = 5
   \<and> check_and_mutate demo_parts [] [] (demo_fuzzer demo_guider) =
       Inr ((demo_fuzzer demo_guider)
              \<lparr>guider := (seen_guider, demo_net_posted), mutator := 5,
               mutatedTracesQueue :=
                 demo_corpus @ [[node_choice 2 1 0], [node_choice 2 1 2], [node_choice 2 1 4]]\<rparr>)
   \<and> check_and_mutate demo_parts [] [] (demo_fuzzer seen_guider) =
       Inr ((demo_fuzzer seen_guider)\<lparr>guider := (seen_guider, demo_net_posted)\<rparr>)"
  using mutation_budget [OF demo_Guider_Check] mutation_budget [OF seen_Guider_Check]
  by (simp add: demo_fuzzer_def FuzzCommand_config_def eval_nat_numeral demo_parts_def)

lemma random_runs_length: "random_runs P i n w = Inr (ts, w') \<Longrightarrow> length ts = n"
proof (induction n arbitrary: i w ts w')
  case 0
  then show ?case by simp
next
  case (Suc n)
  from Suc.prems obtain trace ev w1 ts1 where
    "random_runs P (i + 1) n w1 = Inr (ts1, w')" and "ts = trace # ts1"
    by (auto split: sum.splits prod.splits)
  with Suc.IH show ?case by auto
qed

lemma random_runs_returns:
  "(\<And>name w. \<exists>r. RunIteration P name None w = Inr r) \<Longrightarrow> \<exists>r. random_runs P i n w = Inr r"
proof (induction n arbitrary: i w)
  case 0
  then show ?case by simp
next
  case (Suc n)
  obtain trace ev w1 where r: "RunIteration P (''pop_'' @ Itoa i) None w = Inr ((trace, ev), w1)"
    using Suc.prems [of "''pop_'' @ Itoa i" w] by auto
  obtain ts w2 where "random_runs P (i + 1) n w1 = Inr (ts, w2)"
    using Suc.IH [OF Suc.prems, of "i + 1" w1] by auto
  with r show ?case by simp
qed

lemma seed_loop_runs:
  "seed_loop P i f =
     (case random_runs P i (nat (SeedPopulationSize (config f) - i)) (world f) of
        Inl e \<Rightarrow> Inl e
      | Inr (ts, w') \<Rightarrow>
          Inr (f\<lparr>world := w', mutatedTracesQueue := mutatedTracesQueue f @ map (copyTrace P) ts\<rparr>))"
proof (induction P i f rule: seed_loop.induct)
  case (1 P i f)
  show ?case
  proof (cases "i < SeedPopulationSize (config f)")
    case False
    then show ?thesis by (simp add: seed_loop.simps [of P i f])
  next
    case True
    then have n: "nat (SeedPopulationSize (config f) - i)
                  = Suc (nat (SeedPopulationSize (config f) - (i + 1)))" by simp
    show ?thesis
    proof (cases "RunIteration P (''pop_'' @ Itoa i) None (world f)")
      case (Inl e)
      with True show ?thesis by (simp add: seed_loop.simps [of P i f] n)
    next
      case (Inr x)
      obtain trace ev w1 where x: "x = ((trace, ev), w1)" by (metis surj_pair)
      let ?f1 = "f\<lparr>world := w1, mutatedTracesQueue := mutatedTracesQueue f @ [copyTrace P trace]\<rparr>"
      have ih: "seed_loop P (i + 1) ?f1 =
                (case random_runs P (i + 1) (nat (SeedPopulationSize (config ?f1) - (i + 1))) (world ?f1) of
                   Inl e \<Rightarrow> Inl e
                 | Inr (ts, w') \<Rightarrow>
                     Inr (?f1\<lparr>world := w',
                           mutatedTracesQueue := mutatedTracesQueue ?f1 @ map (copyTrace P) ts\<rparr>))"
        using "1" [OF True] Inr x unfolding Queue_Push_def by simp
      show ?thesis
        unfolding n
        using True Inr x ih
        by (simp add: seed_loop.simps [of P i f] split: sum.splits prod.splits)
    qed
  qed
qed

text \<open>
  Claim C6.  \<open>seed\<close> empties the corpus, makes \<open>SeedPopulationSize\<close> successive runs
  with a \<open>nil\<close> mimic and leaves the copies of their traces, in order, as the corpus:
  after a seeding that returns, the corpus has \<open>SeedPopulationSize\<close> entries.  It
  returns whenever no run panics.
\<close>

theorem seed_populates_corpus:
  "seed P f =
     (case random_runs P 0 (nat (SeedPopulationSize (config f))) (world f) of
        Inl e \<Rightarrow> Inl e
      | Inr (ts, w') \<Rightarrow> Inr (f\<lparr>world := w', mutatedTracesQueue := map (copyTrace P) ts\<rparr>))
   \<and> (seed P f = Inr f' \<longrightarrow>
        length (mutatedTracesQueue f') = nat (SeedPopulationSize (config f))
        \<and> (0 \<le> SeedPopulationSize (config f) \<longrightarrow>
             int (length (mutatedTracesQueue f')) = SeedPopulationSize (config f)))
   \<and> ((\<forall>name w. \<exists>r. RunIteration P name None w = Inr r) \<longrightarrow> (\<exists>f''. seed P f = Inr f''))"
proof -
  have eq: "seed P f =
     (case random_runs P 0 (nat (SeedPopulationSize (config f))) (world f) of
        Inl e \<Rightarrow> Inl e
      | Inr (ts, w') \<Rightarrow> Inr (f\<lparr>world := w', mutatedTracesQueue := map (copyTrace P) ts\<rparr>))"
    by (simp add: seed_def seed_loop_runs split: sum.splits)
  have len: "length (mutatedTracesQueue f') = nat (SeedPopulationSize (config f))"
    if "seed P f = Inr f'"
  proof -
    from that eq obtain ts w' where
      r: "random_runs P 0 (nat (SeedPopulationSize (config f))) (world f) = Inr (ts, w')"
      and f': "f' = f\<lparr>world := w', mutatedTracesQueue := map (copyTrace P) ts\<rparr>"
      by (auto split: sum.splits)
    from random_runs_length [OF r] f' show ?thesis by simp
  qed
  have ret: "\<exists>f''. seed P f = Inr f''" if "\<forall>name w. \<exists>r. RunIteration P name None w = Inr r"
  proof -
    from that have "\<exists>r. random_runs P 0 (nat (SeedPopulationSize (config f))) (world f) = Inr r"
      by (intro random_runs_returns) simp
    then show ?thesis unfolding eq by (auto split: sum.splits)
  qed
  from eq len ret show ?thesis by auto
qed

lemma Itoa_values: "Itoa 0 = ''0''" "Itoa 1 = ''1''" "Itoa 2 = ''2''" "Itoa 3 = ''3''" "Itoa 12 = ''12''" "Itoa (-7) = ''-7''"
  by (simp_all add: Itoa_def itoa_nat.simps digit_def)

lemma demo_random_runs: "random_runs demo_parts 0 4 [] = Inr ([[node_choice 1 2 0], [node_choice 1 2 1],
                                    [node_choice 1 2 2], [node_choice 1 2 3]], [(''pop_0'', None), (''pop_1'', None), (''pop_2'', None), (''pop_3'', None)])"
  by (simp add: eval_nat_numeral demo_parts_def Itoa_values)

theorem seed_populates_corpus_witness:
  "seed demo_parts (demo_fuzzer demo_guider) = Inr seeded_fuzzer
   \<and> length (mutatedTracesQueue (demo_fuzzer demo_guider)) = 3
   \<and> 0 \<le> SeedPopulationSize (config (demo_fuzzer demo_guider))
   \<and> int (length (mutatedTracesQueue seeded_fuzzer))
       = SeedPopulationSize (config (demo_fuzzer demo_guider))
   \<and> world seeded_fuzzer =
       [(''pop_0'', None), (''pop_1'', None), (''pop_2'', None), (''pop_3'', None)]"
proof -
  have s: "seed demo_parts (demo_fuzzer demo_guider) = Inr seeded_fuzzer"
    using seed_populates_corpus [of demo_parts "demo_fuzzer demo_guider"] demo_random_runs
    by (simp add: demo_fuzzer_def demo_parts_def seeded_fuzzer_def)
  have p: "0 \<le> SeedPopulationSize (config (demo_fuzzer demo_guider))"
    by (simp add: demo_fuzzer_def)
  from seed_populates_corpus [of demo_parts "demo_fuzzer demo_guider" seeded_fuzzer] s p
  have "int (length (mutatedTracesQueue seeded_fuzzer))
          = SeedPopulationSize (config (demo_fuzzer demo_guider))"
    by blast
  with s p show ?thesis
    by (simp add: demo_fuzzer_def demo_corpus_def seeded_fuzzer_def)
qed

section \<open>Properties of message delivery\<close>

lemma Schedule_loop_nil:
  "i < n \<Longrightarrow> Schedule_loop i n None messages = Inl NilPointerDereference"
  by (simp add: Schedule_loop.simps [of i n None])

lemma Schedule_loop_take:
  "Schedule_loop i n (Some q) messages =
     Inr (Some (drop (nat (n - i)) q), messages @ take (nat (n - i)) q)"
proof (induction i n "Some q" messages arbitrary: q rule: Schedule_loop.induct)
  case (1 i n messages)
  show ?case
  proof (cases "i < n")
    case False
    then show ?thesis by (simp add: Schedule_loop.simps [of i n])
  next
    case True
    then have n: "nat (n - i) = Suc (nat (n - (i + 1)))" by simp
    show ?thesis
    proof (cases q)
      case Nil
      then have "Queue_Pop q = None" by simp
      with Nil True "1.hyps"(1) [OF True refl this] show ?thesis
        by (simp add: Schedule_loop.simps [of i n "Some []"])
    next
      case (Cons m rest)
      then have "Queue_Pop q = Some (m, rest)" by simp
      with Cons True "1.hyps"(2) [OF True refl this refl] show ?thesis
        unfolding n by (simp add: Schedule_loop.simps [of i n "Some (m # rest)"])
    qed
  qed
qed

lemma Schedule_Some:
  "queues (queue_key from to) = Some q \<Longrightarrow>
   Schedule queues from to k =
     Inr (queues(queue_key from to \<mapsto> drop (nat k) q), take (nat k) q)"
  by (simp add: Schedule_def Schedule_loop_take)

lemma Schedule_None:
  "queues (queue_key from to) = None \<Longrightarrow>
   Schedule queues from to k = (if 0 < k then Inl NilPointerDereference else Inr (queues, []))"
  by (simp add: Schedule_def Schedule_loop_nil Schedule_loop.simps [of 0 k None])

lemma deliver_all_fold:
  "deliver_all D ms (ev, env) =
     (ev @ map DeliverMessage_event ms, foldl (Step D) env ms)"
  by (induction ms arbitrary: ev env) (simp_all add: recordReceive_def)

lemma deliver_crashed: "crashed st to \<noteq> None \<Longrightarrow> deliver D from to k st = Inr st"
  by (auto simp: deliver_def)

lemma deliver_queue:
  assumes "crashed st to = None" and "messageQueues st (queue_key from to) = Some q"
  shows "deliver D from to k st =
     Inr (st\<lparr>tCtx := (tCtx st)\<lparr>ctx_eventTrace :=
                 ctx_eventTrace (tCtx st) @ map DeliverMessage_event (take (nat k) q)\<rparr>,
             messageQueues := (messageQueues st)(queue_key from to \<mapsto> drop (nat k) q),
             raftEnvironment := foldl (Step D) (raftEnvironment st) (take (nat k) q),
             delivered := (delivered st)
               (queue_key from to := delivered st (queue_key from to) @ take (nat k) q)\<rparr>)"
  using assms by (simp add: deliver_def Schedule_Some deliver_all_fold)

lemma deliver_fifo:
  assumes "fifo_history st" and "deliver D from to k st = Inr st'"
  shows "fifo_history st'"
proof (cases "crashed st to = None")
  case False
  with assms show ?thesis by (simp add: deliver_crashed)
next
  case True
  show ?thesis
  proof (cases "messageQueues st (queue_key from to)")
    case None
    with True assms(2) have "st' = st\<lparr>tCtx := (tCtx st)\<lparr>ctx_eventTrace := ctx_eventTrace (tCtx st)\<rparr>,
         messageQueues := messageQueues st, raftEnvironment := raftEnvironment st,
         delivered := (delivered st)(queue_key from to := delivered st (queue_key from to) @ [])\<rparr>"
      by (auto simp: deliver_def Schedule_None split: if_splits)
    then have "st' = st" by simp
    with assms(1) show ?thesis by simp
  next
    case (Some q)
    from deliver_queue [OF True Some, of D k] assms(2) have
      st': "st' = st\<lparr>tCtx := (tCtx st)\<lparr>ctx_eventTrace :=
                 ctx_eventTrace (tCtx st) @ map DeliverMessage_event (take (nat k) q)\<rparr>,
             messageQueues := (messageQueues st)(queue_key from to \<mapsto> drop (nat k) q),
             raftEnvironment := foldl (Step D) (raftEnvironment st) (take (nat k) q),
             delivered := (delivered st)
               (queue_key from to := delivered st (queue_key from to) @ take (nat k) q)\<rparr>"
      by simp
    show ?thesis
      unfolding fifo_history_def
    proof
      fix key
      from assms(1) have h: "enqueued st key = delivered st key @ queued st key"
        by (simp add: fifo_history_def)
      show "enqueued st' key = delivered st' key @ queued st' key"
      proof (cases "key = queue_key from to")
        case True
        with h Some st' show ?thesis by (simp add: queued_def)
      next
        case False
        with h st' show ?thesis by (simp add: queued_def)
      qed
    qed
  qed
qed

lemma enqueue_all_fifo:
  "fifo_history st \<Longrightarrow> enqueue_all D ns st = Inr st' \<Longrightarrow> fifo_history st'"
proof (induction ns arbitrary: st)
  case Nil
  then show ?case by simp
next
  case (Cons n ns)
  let ?key = "queue_key (Message_From n) (Message_To n)"
  from Cons.prems(2) obtain q where q: "messageQueues st ?key = Some q"
    by (auto simp: Let_def split: option.splits)
  let ?st1 = "st\<lparr>tCtx := (tCtx st)\<lparr>ctx_eventTrace := recordSend D n (ctx_eventTrace (tCtx st))\<rparr>,
                   messageQueues := (messageQueues st)(?key \<mapsto> q @ [n]),
                   enqueued := (enqueued st)(?key := enqueued st ?key @ [n])\<rparr>"
  from Cons.prems(2) q have r: "enqueue_all D ns ?st1 = Inr st'" by (simp add: Let_def)
  have "fifo_history ?st1"
    using Cons.prems(1) q by (auto simp: fifo_history_def queued_def)
  from Cons.IH [OF this r] show ?case .
qed

lemma fifo_history_frame:
  "messageQueues st' = messageQueues st \<Longrightarrow> delivered st' = delivered st \<Longrightarrow>
   enqueued st' = enqueued st \<Longrightarrow> fifo_history st' = fifo_history st"
  by (simp add: fifo_history_def queued_def)

lemma crash_or_start_frame:
  "messageQueues (crash_or_start D j st) = messageQueues st
   \<and> delivered (crash_or_start D j st) = delivered st
   \<and> enqueued (crash_or_start D j st) = enqueued st"
  by (simp add: crash_or_start_def Let_def split: prod.splits)

lemma step_body_fifo:
  assumes "fifo_history st" and "step_body D j st = Inr st'"
  shows "fifo_history st'"
proof -
  let ?st2 = "crash_or_start D j st"
  obtain c3 "from" to k where g: "GetNextNodeChoice D (tCtx ?st2) = (c3, (from, to, k))"
    by (metis surj_pair)
  from assms(2) g obtain st4 where
    d: "deliver D from to k (?st2\<lparr>tCtx := c3\<rparr>) = Inr st4" and
    r: "request_and_tick D j st4 = Inr st'"
    by (auto simp: step_body_def Let_def split: sum.splits)
  have "fifo_history (?st2\<lparr>tCtx := c3\<rparr>)"
    using assms(1) crash_or_start_frame [of D j st]
    by (simp add: fifo_history_def queued_def)
  from deliver_fifo [OF this d] have f4: "fifo_history st4" .
  obtain c reqNum ok where i: "IsClientRequest D (tCtx st4) j = (c, (reqNum, ok))"
    by (metis surj_pair)
  let ?st5 = "if ok then st4\<lparr>tCtx := c,
                 raftEnvironment := Step D (raftEnvironment st4) (client_request reqNum)\<rparr>
              else st4\<lparr>tCtx := c\<rparr>"
  obtain env' ns where t: "Tick D (raftEnvironment ?st5) = (env', ns)" by (metis surj_pair)
  from r i t have e: "enqueue_all D ns (?st5\<lparr>raftEnvironment := env'\<rparr>) = Inr st'"
    by (simp add: request_and_tick_def Let_def)
  have "fifo_history (?st5\<lparr>raftEnvironment := env'\<rparr>)"
    using f4 by (simp add: fifo_history_def queued_def)
  from enqueue_all_fifo [OF this e] show ?thesis .
qed

lemma run_steps_fifo:
  "fifo_history st \<Longrightarrow> run_steps D j steps st = Inr st' \<Longrightarrow> fifo_history st'"
proof (induction D j steps st rule: run_steps.induct)
  case (1 D j steps st)
  show ?case
  proof (cases "j < steps")
    case False
    with "1.prems" show ?thesis by (simp add: run_steps.simps [of D j steps st])
  next
    case True
    with "1.prems"(2) obtain st1 where
      s: "step_body D j st = Inr st1" and r: "run_steps D (j + 1) steps st1 = Inr st'"
      by (auto simp: run_steps.simps [of D j steps st] split: sum.splits)
    from step_body_fifo [OF "1.prems"(1) s] have "fifo_history st1" .
    from "1.IH" [OF True s this r] show ?thesis .
  qed
qed

lemma start_history_fifo: "fifo_history (start_history st)"
  by (simp add: fifo_history_def start_history_def queued_def)

lemma below_ten: "(m::nat) < 10 \<Longrightarrow> m \<in> {0, 1, 2, 3, 4, 5, 6, 7, 8, 9}"
  by auto

lemma digit_value_digit: "digit_value (digit n) = n mod 10"
proof -
  have "n mod 10 < 10" by simp
  from below_ten [OF this] show ?thesis
    by (auto simp: digit_def digit_value_def)
qed

lemma digit_not_underscore: "digit n \<noteq> CHR ''_''"
proof -
  have "n mod 10 < 10" by simp
  from below_ten [OF this] show ?thesis
    by (auto simp: digit_def)
qed

lemma atoi_itoa_nat: "atoi (itoa_nat n) = n"
proof (induction n rule: itoa_nat.induct)
  case (1 n)
  show ?case
  proof (cases "n < 10")
    case True
    then show ?thesis
      by (simp add: itoa_nat.simps [of n] atoi_def digit_value_digit)
  next
    case False
    with "1" have "atoi (itoa_nat (n div 10)) = n div 10" by simp
    with False show ?thesis
      by (simp add: itoa_nat.simps [of n] atoi_def digit_value_digit)
  qed
qed

lemma itoa_nat_no_underscore: "CHR ''_'' \<notin> set (itoa_nat n)"
proof (induction n rule: itoa_nat.induct)
  case (1 n)
  then show ?case
    using digit_not_underscore [of n, symmetric]
    by (cases "n < 10") (simp_all add: itoa_nat.simps [of n])
qed

lemma split_at_separator:
  "c \<notin> set a \<Longrightarrow> c \<notin> set a' \<Longrightarrow> a @ c # b = a' @ c # b' \<Longrightarrow> a = a' \<and> b = b'"
proof (induction a arbitrary: a')
  case Nil
  then show ?case by (cases a') auto
next
  case (Cons x a)
  then show ?case by (cases a') auto
qed

lemma queue_key_inject: "queue_key a b = queue_key a' b' \<longleftrightarrow> a = a' \<and> b = b'"
proof
  assume "queue_key a b = queue_key a' b'"
  then have "itoa_nat (unat a) @ CHR ''_'' # itoa_nat (unat b)
             = itoa_nat (unat a') @ CHR ''_'' # itoa_nat (unat b')"
    by (simp add: queue_key_def)
  from split_at_separator [OF itoa_nat_no_underscore itoa_nat_no_underscore this]
  have "itoa_nat (unat a) = itoa_nat (unat a')" and "itoa_nat (unat b) = itoa_nat (unat b')"
    by simp_all
  then have "atoi (itoa_nat (unat a)) = atoi (itoa_nat (unat a'))"
    and "atoi (itoa_nat (unat b)) = atoi (itoa_nat (unat b'))" by simp_all
  then show "a = a' \<and> b = b'" by (simp add: atoi_itoa_nat word_unat_eq_iff)
qed simp

lemma queue_key_1_2: "queue_key 1 2 = ''1_2''"
  by (simp add: queue_key_def itoa_nat.simps digit_def)

lemma demo_run:
  "\<exists>st'. run_steps demo_collaborators 0 1 (start_history demo_iteration) = Inr st'
     \<and> delivered st' ''1_2'' = [msg 1 2 5, msg 1 2 6]
     \<and> enqueued st' ''1_2'' = [msg 1 2 5, msg 1 2 6, msg 1 2 7, msg 1 2 3]
     \<and> raftEnvironment st' = [msg 1 2 5, msg 1 2 6, client_request 1]"
  by (simp add: run_steps.simps [of _ 0] run_steps.simps [of _ 1] step_body_def crash_or_start_def
      request_and_tick_def deliver_def Schedule_Some demo_collaborators_def demo_iteration_def
      start_history_def queued_def queue_key_1_2 Let_def msg_def)

text \<open>
  Claim C5.  For the chosen channel \<open>(from, to, k)\<close>: if \<open>to\<close> is marked crashed the
  delivery block changes nothing (no pop, no \<open>Step\<close>, no event); otherwise, with \<open>q\<close>
  the queue of \<open>(from, to)\<close>, it pops the first \<open>k\<close> messages of \<open>q\<close> (all of them if
  there are fewer), steps the Raft environment with each in queue order and records a
  \<open>DeliverMessage\<close> event for each.  Over the steps of an iteration, the messages
  delivered from a queue are a prefix of the messages that entered it.
\<close>

theorem delivery_is_fifo:
  "(crashed st to \<noteq> None \<longrightarrow> deliver D from to k st = Inr st)
   \<and> (crashed st to = None \<longrightarrow> messageQueues st (queue_key from to) = Some q \<longrightarrow>
        deliver D from to k st =
          Inr (st\<lparr>tCtx := (tCtx st)\<lparr>ctx_eventTrace :=
                      ctx_eventTrace (tCtx st) @ map DeliverMessage_event (take (nat k) q)\<rparr>,
                  messageQueues := (messageQueues st)(queue_key from to \<mapsto> drop (nat k) q),
                  raftEnvironment := foldl (Step D) (raftEnvironment st) (take (nat k) q),
                  delivered := (delivered st)
                    (queue_key from to := delivered st (queue_key from to) @ take (nat k) q)\<rparr>)
        \<and> length (take (nat k) q) \<le> nat k
        \<and> prefix (take (nat k) q) q)
   \<and> (run_steps D j steps (start_history st) = Inr st' \<longrightarrow>
        enqueued st' (queue_key a b) = delivered st' (queue_key a b) @ queued st' (queue_key a b)
        \<and> prefix (delivered st' (queue_key a b)) (enqueued st' (queue_key a b)))"
proof (intro conjI impI)
  assume "crashed st to \<noteq> None"
  then show "deliver D from to k st = Inr st" by (rule deliver_crashed)
next
  assume "crashed st to = None" and "messageQueues st (queue_key from to) = Some q"
  then show "deliver D from to k st =
          Inr (st\<lparr>tCtx := (tCtx st)\<lparr>ctx_eventTrace :=
                      ctx_eventTrace (tCtx st) @ map DeliverMessage_event (take (nat k) q)\<rparr>,
                  messageQueues := (messageQueues st)(queue_key from to \<mapsto> drop (nat k) q),
                  raftEnvironment := foldl (Step D) (raftEnvironment st) (take (nat k) q),
                  delivered := (delivered st)
                    (queue_key from to := delivered st (queue_key from to) @ take (nat k) q)\<rparr>)"
    by (rule deliver_queue)
next
  show "length (take (nat k) q) \<le> nat k" by simp
next
  show "prefix (take (nat k) q) q" by (rule take_is_prefix)
next
  assume r: "run_steps D j steps (start_history st) = Inr st'"
  from run_steps_fifo [OF start_history_fifo r]
  show e: "enqueued st' (queue_key a b) = delivered st' (queue_key a b) @ queued st' (queue_key a b)"
    by (simp add: fifo_history_def)
  then show "prefix (delivered st' (queue_key a b)) (enqueued st' (queue_key a b))"
    by simp
qed

theorem delivery_is_fifo_witness:
  "crashed (demo_iteration\<lparr>crashed := [2 \<mapsto> True]\<rparr>) 2 \<noteq> None
   \<and> deliver demo_collaborators 1 2 2 (demo_iteration\<lparr>crashed := [2 \<mapsto> True]\<rparr>)
       = Inr (demo_iteration\<lparr>crashed := [2 \<mapsto> True]\<rparr>)
   \<and> crashed demo_iteration 2 = None
   \<and> messageQueues demo_iteration (queue_key 1 2) = Some [msg 1 2 5, msg 1 2 6, msg 1 2 7]
   \<and> deliver demo_collaborators 1 2 2 demo_iteration =
       Inr (demo_iteration
             \<lparr>tCtx := (tCtx demo_iteration)\<lparr>ctx_eventTrace :=
                 [DeliverMessage_event (msg 1 2 5), DeliverMessage_event (msg 1 2 6)]\<rparr>,
              messageQueues := (messageQueues demo_iteration)(''1_2'' \<mapsto> [msg 1 2 7]),
              raftEnvironment := [msg 1 2 5, msg 1 2 6],
              delivered := (delivered demo_iteration)(''1_2'' := [msg 1 2 5, msg 1 2 6])\<rparr>)
   \<and> (\<exists>st'. run_steps demo_collaborators 0 1 (start_history demo_iteration) = Inr st'
         \<and> delivered st' ''1_2'' = [msg 1 2 5, msg 1 2 6]
         \<and> enqueued st' ''1_2'' = [msg 1 2 5, msg 1 2 6, msg 1 2 7, msg 1 2 3]
         \<and> prefix (delivered st' (queue_key 1 2)) (enqueued st' (queue_key 1 2)))"
proof -
  have c: "crashed (demo_iteration\<lparr>crashed := [2 \<mapsto> True]\<rparr>) 2 \<noteq> None" by simp
  have n: "crashed demo_iteration 2 = None" by (simp add: demo_iteration_def)
  have q: "messageQueues demo_iteration (queue_key 1 2) = Some [msg 1 2 5, msg 1 2 6, msg 1 2 7]"
    by (simp add: demo_iteration_def queue_key_1_2)
  obtain st' where r: "run_steps demo_collaborators 0 1 (start_history demo_iteration) = Inr st'"
    and d: "delivered st' ''1_2'' = [msg 1 2 5, msg 1 2 6]"
    and e: "enqueued st' ''1_2'' = [msg 1 2 5, msg 1 2 6, msg 1 2 7, msg 1 2 3]"
    using demo_run by blast
  have 1: "deliver demo_collaborators 1 2 2 (demo_iteration\<lparr>crashed := [2 \<mapsto> True]\<rparr>)
       = Inr (demo_iteration\<lparr>crashed := [2 \<mapsto> True]\<rparr>)"
    using delivery_is_fifo [of "demo_iteration\<lparr>crashed := [2 \<mapsto> True]\<rparr>" 2
        demo_collaborators 1 2] c by blast
  have 2: "deliver demo_collaborators 1 2 2 demo_iteration =
       Inr (demo_iteration
             \<lparr>tCtx := (tCtx demo_iteration)\<lparr>ctx_eventTrace :=
                 [DeliverMessage_event (msg 1 2 5), DeliverMessage_event (msg 1 2 6)]\<rparr>,
              messageQueues := (messageQueues demo_iteration)(''1_2'' \<mapsto> [msg 1 2 7]),
              raftEnvironment := [msg 1 2 5, msg 1 2 6],
              delivered := (delivered demo_iteration)(''1_2'' := [msg 1 2 5, msg 1 2 6])\<rparr>)"
    using delivery_is_fifo [of demo_iteration 2 demo_collaborators 1 2
        "[msg 1 2 5, msg 1 2 6, msg 1 2 7]"] n q
    by (simp add: queue_key_1_2 demo_iteration_def demo_collaborators_def)
  have 3: "prefix (delivered st' (queue_key 1 2)) (enqueued st' (queue_key 1 2))"
    using delivery_is_fifo [where D = demo_collaborators and j = 0 and steps = 1
        and st = demo_iteration and st' = st' and a = 1 and b = 2] r
    by blast
  from c n q r d e 1 2 3 show ?thesis by blast
qed

end
